theory Spec2Isabelle
  imports Main "HOL-Library.AList"
begin

section \<open>The tracer core (BaseTracer)\<close>

text \<open>
  The tracer keeps a registry \<^verbatim>\<open>runMap\<close> from run identifiers to run objects.  Run
  objects are JavaScript objects: they are mutated in place and the same object is
  referenced from the registry and from the child arrays of its parent.  The model
  therefore keeps the objects in a store (\<open>heap\<close>) and lets the registry and the
  child arrays hold addresses.

  Conventions of the embedding:
  \<^item> a \<^verbatim>\<open>throw\<close> is a value of type \<open>exn\<close>; every handler returns the raised
    exception (if any) together with the state it leaves behind;
  \<^item> \<^verbatim>\<open>Date.now()\<close> is an argument of the call (\<open>now\<close>);
  \<^item> the abstract methods \<^verbatim>\<open>loadDefaultSession\<close>, \<^verbatim>\<open>persistRun\<close> and the optional
    hooks \<^verbatim>\<open>onLLMStart\<close>, ... are fields of an environment \<open>env\<close>; each of them may
    raise.  Hooks observe the run they are given and do not touch the registry;
  \<^item> JavaScript numbers holding execution orders are modelled as unbounded integers
    (they are exact below \<open>2^53\<close>);
  \<^item> the payload types \<^verbatim>\<open>LLMResult\<close>, \<^verbatim>\<open>ChainValues\<close> and \<^verbatim>\<open>AgentAction\<close> are never
    inspected by the tracer and are kept as opaque strings;
  \<^item> each handler runs to completion before the next call is processed.
\<close>

type_synonym uuid = string
type_synonym addr = nat
type_synonym LLMResult = string
type_synonym ChainValues = string
type_synonym AgentAction = string

datatype RunType = Llm | Chain | Tool

record TracerSession =
  session_ident :: int
  session_start_time :: int
  session_name :: "string option"

text \<open>The three child arrays owned by a chain run or a tool run.\<close>

record child_arrays =
  child_llm_runs :: "addr list"
  child_chain_runs :: "addr list"
  child_tool_runs :: "addr list"

text \<open>
  \<^verbatim>\<open>Run = LLMRun | ChainRun | ToolRun\<close> is a union tagged by the field \<^verbatim>\<open>type\<close>.  The
  constructor of \<open>run_body\<close> is that tag; it carries the fields of the variant.
  The optional \<^verbatim>\<open>actions\<close> array of an \<^verbatim>\<open>AgentRun\<close> lives on chain runs.
\<close>

datatype run_body =
    LLMRun "string list" "LLMResult option"
  | ChainRun ChainValues "ChainValues option" "AgentAction list option" child_arrays
  | ToolRun string "string option" string child_arrays

record Run =
  uuid :: uuid
  parent_uuid :: "uuid option"
  start_time :: int
  end_time :: int
  execution_order :: int
  child_execution_order :: int
  serialized :: string
  session_id :: int
  error :: "string option"
  body :: run_body

fun body_type :: "run_body \<Rightarrow> RunType" where
  "body_type (LLMRun _ _) = Llm"
| "body_type (ChainRun _ _ _ _) = Chain"
| "body_type (ToolRun _ _ _ _) = Tool"

definition run_type :: "Run \<Rightarrow> RunType" where
  "run_type r = body_type (body r)"

datatype exn =
    InvalidRunType
  | CallerNotToolOrChain
  | CallerRunNotFound uuid
  | ParentRunNotFound uuid
  | NoLLMRunToEnd
  | NoChainRunToEnd
  | NoToolRunToEnd
  | FailedToFetchTenant int string string
  | NoTenantsFound string
  | FailedToCreateSession int string string
  | FailedToPersistRun int string string
  | External string

text \<open>
  \<open>ParentRunNotFound\<close> is the error \<^verbatim>\<open>Parent run ... not found\<close> (the specification's
  ParentNotFound), \<open>CallerNotToolOrChain\<close> is \<^verbatim>\<open>Caller run can only be a tool or chain\<close>
  (InvalidParentKind), the three \<open>No...RunToEnd\<close> are NoSuchOpenRun.  The four
  \<open>Failed...\<close>/\<open>NoTenantsFound\<close> errors are raised by the remote persistence adapter of
  the last section (\<open>NoTenantsFound\<close> is NoTenantAvailable; the others carry status,
  status text and body).  \<open>External\<close> is whatever a collaborator (session loader,
  persistence, hook, transport) raises.
\<close>

record env =
  loadDefaultSession :: "exn + TracerSession"
  persistRun :: "(addr \<Rightarrow> Run) \<Rightarrow> addr \<Rightarrow> exn option"
  JSON_stringify :: "string \<Rightarrow> string"
  onLLMStart :: "(Run \<Rightarrow> exn option) option"
  onLLMEnd :: "(Run \<Rightarrow> exn option) option"
  onLLMError :: "(Run \<Rightarrow> exn option) option"
  onChainStart :: "(Run \<Rightarrow> exn option) option"
  onChainEnd :: "(Run \<Rightarrow> exn option) option"
  onChainError :: "(Run \<Rightarrow> exn option) option"
  onToolStart :: "(Run \<Rightarrow> exn option) option"
  onToolEnd :: "(Run \<Rightarrow> exn option) option"
  onToolError :: "(Run \<Rightarrow> exn option) option"
  onAgentAction :: "(Run \<Rightarrow> exn option) option"

record tracer =
  session :: "TracerSession option"
  runMap :: "uuid \<rightharpoonup> addr"
  heap :: "addr \<Rightarrow> Run"
  next_addr :: addr
  persist_calls :: "addr list"

text \<open>
  \<open>persist_calls\<close> lists the runs handed to \<^verbatim>\<open>persistRun\<close>, in call order; it makes
  the call to the persistence adapter observable.  \<open>next_addr\<close> is the first address
  not yet given to an object.
\<close>

definition blank_run :: Run where
  "blank_run = \<lparr>uuid = [], parent_uuid = None, start_time = 0, end_time = 0,
     execution_order = 0, child_execution_order = 0, serialized = [], session_id = 0,
     error = None, body = LLMRun [] None\<rparr>"

definition init :: tracer where
  "init = \<lparr>session = None, runMap = Map.empty, heap = (\<lambda>_. blank_run), next_addr = 0,
     persist_calls = []\<rparr>"

text \<open>\<^verbatim>\<open>this.runMap.get(id)\<close>: the object registered under \<open>id\<close>, if any.\<close>

definition lookup :: "tracer \<Rightarrow> uuid \<Rightarrow> Run option" where
  "lookup st i = map_option (heap st) (runMap st i)"

text \<open>
  JavaScript truthiness of a value of type \<^verbatim>\<open>string | undefined\<close>: \<^verbatim>\<open>undefined\<close> and
  the empty string are falsy.
\<close>

fun truthy :: "string option \<Rightarrow> bool" where
  "truthy None = False"
| "truthy (Some s) = (s \<noteq> [])"

text \<open>\<^verbatim>\<open>await this.hook?.(run)\<close>\<close>

definition call_hook :: "(Run \<Rightarrow> exn option) option \<Rightarrow> Run \<Rightarrow> exn option" where
  "call_hook h r = (case h of None \<Rightarrow> None | Some f \<Rightarrow> f r)"

text \<open>
  \<^verbatim>\<open>_addChildRun\<close>: push the child onto the array matching the child's type.  The
  final \<^verbatim>\<open>else throw new Error("Invalid run type")\<close> of the source cannot be reached
  by a value of \<open>RunType\<close>.
\<close>

definition addChildRun :: "child_arrays \<Rightarrow> RunType \<Rightarrow> addr \<Rightarrow> child_arrays" where
  "addChildRun cs t a =
     (case t of
        Llm \<Rightarrow> cs\<lparr>child_llm_runs := child_llm_runs cs @ [a]\<rparr>
      | Chain \<Rightarrow> cs\<lparr>child_chain_runs := child_chain_runs cs @ [a]\<rparr>
      | Tool \<Rightarrow> cs\<lparr>child_tool_runs := child_tool_runs cs @ [a]\<rparr>)"

text \<open>
  \<^verbatim>\<open>_startTrace(run)\<close>.  The new object gets the address \<open>next_addr\<close>.  The test
  \<^verbatim>\<open>if (run.parent_uuid)\<close> is a truthiness test.  Both \<^verbatim>\<open>throw\<close>s happen before any
  mutation, so a raised exception leaves the state as it was.
\<close>

definition startTrace :: "Run \<Rightarrow> tracer \<Rightarrow> exn + tracer" where
  "startTrace run st =
     (let a = next_addr st in
      case (case (if truthy (parent_uuid run) then parent_uuid run else None) of
              None \<Rightarrow> Inr st
            | Some p \<Rightarrow>
                (case runMap st p of
                   None \<Rightarrow> Inl (CallerRunNotFound p)
                 | Some pa \<Rightarrow>
                     (case body (heap st pa) of
                        LLMRun _ _ \<Rightarrow> Inl CallerNotToolOrChain
                      | ChainRun i out acts cs \<Rightarrow>
                          Inr (st\<lparr>heap := (heap st)(pa := (heap st pa)
                                 \<lparr>body := ChainRun i out acts (addChildRun cs (run_type run) a)\<rparr>)\<rparr>)
                      | ToolRun i out act cs \<Rightarrow>
                          Inr (st\<lparr>heap := (heap st)(pa := (heap st pa)
                                 \<lparr>body := ToolRun i out act (addChildRun cs (run_type run) a)\<rparr>)\<rparr>))))
      of
        Inl e \<Rightarrow> Inl e
      | Inr st1 \<Rightarrow>
          Inr (st1\<lparr>heap := (heap st1)(a := run),
                   runMap := (runMap st1)(uuid run \<mapsto> a),
                   next_addr := Suc a\<rparr>))"

text \<open>
  \<^verbatim>\<open>_endTrace(run)\<close>, the run given by its address.  \<^verbatim>\<open>if (!run.parent_uuid)\<close> is again
  a truthiness test.  \<^verbatim>\<open>this.runMap.delete(run.uuid)\<close> is the last statement: it is
  reached only when nothing before it has raised.
\<close>

definition endTrace :: "env \<Rightarrow> addr \<Rightarrow> tracer \<Rightarrow> exn option \<times> tracer" where
  "endTrace en a st =
     (let run = heap st a in
      case (if truthy (parent_uuid run) then parent_uuid run else None) of
        None \<Rightarrow>
          (let st1 = st\<lparr>persist_calls := persist_calls st @ [a]\<rparr> in
           case persistRun en (heap st) a of
             Some e \<Rightarrow> (Some e, st1)
           | None \<Rightarrow> (None, st1\<lparr>runMap := (runMap st1)(uuid run := None)\<rparr>))
      | Some p \<Rightarrow>
          (case runMap st p of
             None \<Rightarrow> (Some (ParentRunNotFound p), st)
           | Some pa \<Rightarrow>
               (let parentRun = heap st pa;
                    st1 = st\<lparr>heap := (heap st)(pa := parentRun
                            \<lparr>child_execution_order :=
                               max (child_execution_order parentRun)
                                   (child_execution_order run)\<rparr>)\<rparr>
                in (None, st1\<lparr>runMap := (runMap st1)(uuid run := None)\<rparr>))))"

text \<open>\<^verbatim>\<open>_getExecutionOrder(parentRunId)\<close>: here the test is \<^verbatim>\<open>=== undefined\<close>.\<close>

definition getExecutionOrder :: "tracer \<Rightarrow> uuid option \<Rightarrow> exn + int" where
  "getExecutionOrder st parentRunId =
     (case parentRunId of
        None \<Rightarrow> Inr 1
      | Some p \<Rightarrow>
          (case lookup st p of
             None \<Rightarrow> Inl (ParentRunNotFound p)
           | Some parentRun \<Rightarrow> Inr (child_execution_order parentRun + 1)))"

text \<open>
  \<^verbatim>\<open>if (this.session === undefined) this.session = await this.loadDefaultSession()\<close>,
  the first statement of the three start handlers.
\<close>

definition ensureDefaultSession :: "env \<Rightarrow> tracer \<Rightarrow> (exn + TracerSession) \<times> tracer" where
  "ensureDefaultSession en st =
     (case session st of
        Some s \<Rightarrow> (Inr s, st)
      | None \<Rightarrow>
          (case loadDefaultSession en of
             Inl e \<Rightarrow> (Inl e, st)
           | Inr s \<Rightarrow> (Inr s, st\<lparr>session := Some s\<rparr>)))"

definition handleLLMStart ::
  "env \<Rightarrow> string \<Rightarrow> string list \<Rightarrow> uuid \<Rightarrow> uuid option \<Rightarrow> int \<Rightarrow> tracer \<Rightarrow> exn option \<times> tracer" where
  "handleLLMStart en llm prompts runId parentRunId now st =
     (case ensureDefaultSession en st of
        (Inl e, st1) \<Rightarrow> (Some e, st1)
      | (Inr s, st1) \<Rightarrow>
          (case getExecutionOrder st1 parentRunId of
             Inl e \<Rightarrow> (Some e, st1)
           | Inr order \<Rightarrow>
               (let run = \<lparr>uuid = runId, parent_uuid = parentRunId, start_time = now,
                             end_time = 0, execution_order = order,
                             child_execution_order = order, serialized = llm,
                             session_id = session_ident s, error = None,
                             body = LLMRun prompts None\<rparr>
                in case startTrace run st1 of
                     Inl e \<Rightarrow> (Some e, st1)
                   | Inr st2 \<Rightarrow> (call_hook (onLLMStart en) run, st2))))"

definition handleLLMEnd :: "env \<Rightarrow> LLMResult \<Rightarrow> uuid \<Rightarrow> int \<Rightarrow> tracer \<Rightarrow> exn option \<times> tracer" where
  "handleLLMEnd en output' runId now st =
     (case runMap st runId of
        None \<Rightarrow> (Some NoLLMRunToEnd, st)
      | Some a \<Rightarrow>
          (case body (heap st a) of
             LLMRun ps _ \<Rightarrow>
               (let llmRun = (heap st a)\<lparr>end_time := now, body := LLMRun ps (Some output')\<rparr>;
                    st1 = st\<lparr>heap := (heap st)(a := llmRun)\<rparr>
                in case call_hook (onLLMEnd en) llmRun of
                     Some e \<Rightarrow> (Some e, st1)
                   | None \<Rightarrow> endTrace en a st1)
           | _ \<Rightarrow> (Some NoLLMRunToEnd, st)))"

definition handleLLMError :: "env \<Rightarrow> string \<Rightarrow> uuid \<Rightarrow> int \<Rightarrow> tracer \<Rightarrow> exn option \<times> tracer" where
  "handleLLMError en message runId now st =
     (case runMap st runId of
        None \<Rightarrow> (Some NoLLMRunToEnd, st)
      | Some a \<Rightarrow>
          (case body (heap st a) of
             LLMRun _ _ \<Rightarrow>
               (let llmRun = (heap st a)\<lparr>end_time := now, error := Some message\<rparr>;
                    st1 = st\<lparr>heap := (heap st)(a := llmRun)\<rparr>
                in case call_hook (onLLMError en) llmRun of
                     Some e \<Rightarrow> (Some e, st1)
                   | None \<Rightarrow> endTrace en a st1)
           | _ \<Rightarrow> (Some NoLLMRunToEnd, st)))"

definition handleChainStart ::
  "env \<Rightarrow> string \<Rightarrow> ChainValues \<Rightarrow> uuid \<Rightarrow> uuid option \<Rightarrow> int \<Rightarrow> tracer \<Rightarrow> exn option \<times> tracer" where
  "handleChainStart en chain inputs runId parentRunId now st =
     (case ensureDefaultSession en st of
        (Inl e, st1) \<Rightarrow> (Some e, st1)
      | (Inr s, st1) \<Rightarrow>
          (case getExecutionOrder st1 parentRunId of
             Inl e \<Rightarrow> (Some e, st1)
           | Inr order \<Rightarrow>
               (let run = \<lparr>uuid = runId, parent_uuid = parentRunId, start_time = now,
                             end_time = 0, execution_order = order,
                             child_execution_order = order, serialized = chain,
                             session_id = session_ident s, error = None,
                             body = ChainRun inputs None None
                               \<lparr>child_llm_runs = [], child_chain_runs = [],
                                child_tool_runs = []\<rparr>\<rparr>
                in case startTrace run st1 of
                     Inl e \<Rightarrow> (Some e, st1)
                   | Inr st2 \<Rightarrow> (call_hook (onChainStart en) run, st2))))"

definition handleChainEnd :: "env \<Rightarrow> ChainValues \<Rightarrow> uuid \<Rightarrow> int \<Rightarrow> tracer \<Rightarrow> exn option \<times> tracer" where
  "handleChainEnd en outputs runId now st =
     (case runMap st runId of
        None \<Rightarrow> (Some NoChainRunToEnd, st)
      | Some a \<Rightarrow>
          (case body (heap st a) of
             ChainRun i _ acts cs \<Rightarrow>
               (let chainRun = (heap st a)\<lparr>end_time := now,
                                  body := ChainRun i (Some outputs) acts cs\<rparr>;
                    st1 = st\<lparr>heap := (heap st)(a := chainRun)\<rparr>
                in case call_hook (onChainEnd en) chainRun of
                     Some e \<Rightarrow> (Some e, st1)
                   | None \<Rightarrow> endTrace en a st1)
           | _ \<Rightarrow> (Some NoChainRunToEnd, st)))"

definition handleChainError :: "env \<Rightarrow> string \<Rightarrow> uuid \<Rightarrow> int \<Rightarrow> tracer \<Rightarrow> exn option \<times> tracer" where
  "handleChainError en message runId now st =
     (case runMap st runId of
        None \<Rightarrow> (Some NoChainRunToEnd, st)
      | Some a \<Rightarrow>
          (case body (heap st a) of
             ChainRun _ _ _ _ \<Rightarrow>
               (let chainRun = (heap st a)\<lparr>end_time := now, error := Some message\<rparr>;
                    st1 = st\<lparr>heap := (heap st)(a := chainRun)\<rparr>
                in case call_hook (onChainError en) chainRun of
                     Some e \<Rightarrow> (Some e, st1)
                   | None \<Rightarrow> endTrace en a st1)
           | _ \<Rightarrow> (Some NoChainRunToEnd, st)))"

definition handleToolStart ::
  "env \<Rightarrow> string \<Rightarrow> string \<Rightarrow> uuid \<Rightarrow> uuid option \<Rightarrow> int \<Rightarrow> tracer \<Rightarrow> exn option \<times> tracer" where
  "handleToolStart en tool' input' runId parentRunId now st =
     (case ensureDefaultSession en st of
        (Inl e, st1) \<Rightarrow> (Some e, st1)
      | (Inr s, st1) \<Rightarrow>
          (case getExecutionOrder st1 parentRunId of
             Inl e \<Rightarrow> (Some e, st1)
           | Inr order \<Rightarrow>
               (let run = \<lparr>uuid = runId, parent_uuid = parentRunId, start_time = now,
                             end_time = 0, execution_order = order,
                             child_execution_order = order, serialized = tool',
                             session_id = session_ident s, error = None,
                             body = ToolRun input' None (JSON_stringify en tool')
                               \<lparr>child_llm_runs = [], child_chain_runs = [],
                                child_tool_runs = []\<rparr>\<rparr>
                in case startTrace run st1 of
                     Inl e \<Rightarrow> (Some e, st1)
                   | Inr st2 \<Rightarrow> (call_hook (onToolStart en) run, st2))))"

definition handleToolEnd :: "env \<Rightarrow> string \<Rightarrow> uuid \<Rightarrow> int \<Rightarrow> tracer \<Rightarrow> exn option \<times> tracer" where
  "handleToolEnd en output' runId now st =
     (case runMap st runId of
        None \<Rightarrow> (Some NoToolRunToEnd, st)
      | Some a \<Rightarrow>
          (case body (heap st a) of
             ToolRun i _ act cs \<Rightarrow>
               (let toolRun = (heap st a)\<lparr>end_time := now,
                                 body := ToolRun i (Some output') act cs\<rparr>;
                    st1 = st\<lparr>heap := (heap st)(a := toolRun)\<rparr>
                in case call_hook (onToolEnd en) toolRun of
                     Some e \<Rightarrow> (Some e, st1)
                   | None \<Rightarrow> endTrace en a st1)
           | _ \<Rightarrow> (Some NoToolRunToEnd, st)))"

definition handleToolError :: "env \<Rightarrow> string \<Rightarrow> uuid \<Rightarrow> int \<Rightarrow> tracer \<Rightarrow> exn option \<times> tracer" where
  "handleToolError en message runId now st =
     (case runMap st runId of
        None \<Rightarrow> (Some NoToolRunToEnd, st)
      | Some a \<Rightarrow>
          (case body (heap st a) of
             ToolRun _ _ _ _ \<Rightarrow>
               (let toolRun = (heap st a)\<lparr>end_time := now, error := Some message\<rparr>;
                    st1 = st\<lparr>heap := (heap st)(a := toolRun)\<rparr>
                in case call_hook (onToolError en) toolRun of
                     Some e \<Rightarrow> (Some e, st1)
                   | None \<Rightarrow> endTrace en a st1)
           | _ \<Rightarrow> (Some NoToolRunToEnd, st)))"

text \<open>
  \<^verbatim>\<open>handleAgentAction\<close>: silently returns when the run is unknown or not a chain;
  otherwise pushes the action onto the lazily created \<^verbatim>\<open>actions\<close> array.
\<close>

definition handleAgentAction :: "env \<Rightarrow> AgentAction \<Rightarrow> uuid \<Rightarrow> tracer \<Rightarrow> exn option \<times> tracer" where
  "handleAgentAction en act runId st =
     (case runMap st runId of
        None \<Rightarrow> (None, st)
      | Some a \<Rightarrow>
          (case body (heap st a) of
             ChainRun i out acts cs \<Rightarrow>
               (let agentRun = (heap st a)\<lparr>body := ChainRun i out
                                  (Some ((case acts of None \<Rightarrow> [] | Some xs \<Rightarrow> xs) @ [act])) cs\<rparr>
                in (call_hook (onAgentAction en) agentRun,
                    st\<lparr>heap := (heap st)(a := agentRun)\<rparr>))
           | _ \<Rightarrow> (None, st)))"

subsection \<open>Sequences of lifecycle calls\<close>

datatype call =
    LLMStart string "string list" uuid "uuid option" int
  | LLMEnd LLMResult uuid int
  | LLMError string uuid int
  | ChainStart string ChainValues uuid "uuid option" int
  | ChainEnd ChainValues uuid int
  | ChainError string uuid int
  | ToolStart string string uuid "uuid option" int
  | ToolEnd string uuid int
  | ToolError string uuid int
  | AgentActionCall AgentAction uuid

fun exec :: "env \<Rightarrow> call \<Rightarrow> tracer \<Rightarrow> exn option \<times> tracer" where
  "exec en (LLMStart llm prompts runId parentRunId now) st =
     handleLLMStart en llm prompts runId parentRunId now st"
| "exec en (LLMEnd out runId now) st = handleLLMEnd en out runId now st"
| "exec en (LLMError msg runId now) st = handleLLMError en msg runId now st"
| "exec en (ChainStart chain inputs runId parentRunId now) st =
     handleChainStart en chain inputs runId parentRunId now st"
| "exec en (ChainEnd out runId now) st = handleChainEnd en out runId now st"
| "exec en (ChainError msg runId now) st = handleChainError en msg runId now st"
| "exec en (ToolStart tool' input' runId parentRunId now) st =
     handleToolStart en tool' input' runId parentRunId now st"
| "exec en (ToolEnd out runId now) st = handleToolEnd en out runId now st"
| "exec en (ToolError msg runId now) st = handleToolError en msg runId now st"
| "exec en (AgentActionCall act runId) st = handleAgentAction en act runId st"

text \<open>
  A caller issues calls one after another; a call that raised leaves the state it
  reached, and the next call starts from there.
\<close>

fun run_calls :: "env \<Rightarrow> call list \<Rightarrow> tracer \<Rightarrow> tracer" where
  "run_calls en [] st = st"
| "run_calls en (c # cs) st = run_calls en cs (snd (exec en c st))"

subsection \<open>The bundled session loader\<close>

text \<open>
  \<^verbatim>\<open>loadDefaultSession\<close> is abstract in the base class.  The implementation bundled in
  the same file sends a GET request and passes the outcome to
  \<^verbatim>\<open>_handleSessionResponse\<close>: a response that is not ok, or an empty list, yields the
  fallback session with id 1; the \<^verbatim>\<open>await fetch(...)\<close> is not guarded, so a rejected
  fetch (the server cannot be reached) propagates to the caller.
\<close>

record 'a response =
  ok :: bool
  status :: int
  statusText :: string
  body_text :: string
  json :: 'a

definition handleSessionResponse ::
  "exn + (TracerSession list) response \<Rightarrow> int \<Rightarrow> exn + TracerSession" where
  "handleSessionResponse fetched now =
     (case fetched of
        Inl e \<Rightarrow> Inl e
      | Inr response \<Rightarrow>
          if \<not> ok response then
            Inr \<lparr>session_ident = 1, session_start_time = now, session_name = None\<rparr>
          else
            (case json response of
               [] \<Rightarrow> Inr \<lparr>session_ident = 1, session_start_time = now, session_name = None\<rparr>
             | tracerSession # _ \<Rightarrow> Inr tracerSession))"

section \<open>The remote persistence adapter (LangChainTracer)\<close>

text \<open>
  The adapter converts a finished root run with its nested children into a
  \<^verbatim>\<open>RunCreate\<close> record and posts it.  It works on the run type of its own base
  class, whose declaration is not among the sources at hand; the fields below are
  the ones \<^verbatim>\<open>_convertToCreate\<close> reads.  Children are nested values here: the adapter
  only reads the tree.

  Requests go through \<^verbatim>\<open>this.caller.call(fetch, ...)\<close>.  The transport is a parameter:
  one function per endpoint, given the requests issued so far (the remote store may
  answer differently over time) and returning a response or raising.  The field
  \<open>requests\<close> of the adapter state records every request issued.  \<^verbatim>\<open>response.json()\<close>
  is read at the type the call site expects; a tenant list that is \<^verbatim>\<open>null\<close> is \<open>None\<close>.
\<close>

type_synonym KV = "(string \<times> string) list"

record TracerSessionV2 =
  sess_id :: string
  sess_tenant_id :: string
  sess_start_time :: int
  sess_name :: "string option"

record tenant =
  tenant_ident :: string

datatype RunV2 =
  RunV2 (v2_id: string) (v2_name: string) (v2_start_time: int) (v2_end_time: int)
    (v2_run_type: string) (v2_extra: "KV option") (v2_execution_order: int)
    (v2_serialized: string) (v2_error: "string option") (v2_inputs: string)
    (v2_outputs: "string option") (v2_child_runs: "RunV2 list")

datatype RunCreate =
  RunCreate (c_id: string) (c_name: string) (c_start_time: int) (c_end_time: int)
    (c_run_type: string) (reference_example_id: "string option") (c_extra: KV)
    (c_execution_order: int) (c_serialized: string) (c_error: "string option")
    (c_inputs: string) (c_outputs: string) (c_session_id: string)
    (child_runs: "RunCreate list")

datatype request =
    Get string
  | PostSession string string string "KV option"
  | PostRun string RunCreate

text \<open>
  \<open>Get url\<close>, \<open>PostSession url name tenant_id extra\<close> and \<open>PostRun url run\<close> are the three
  requests the adapter issues.
\<close>

record envV2 =
  endpoint :: string
  fetch_tenants :: "request list \<Rightarrow> exn + (tenant list option) response"
  fetch_session :: "request list \<Rightarrow> request \<Rightarrow> exn + TracerSessionV2 response"
  fetch_run :: "request list \<Rightarrow> request \<Rightarrow> exn + unit response"
  getRuntimeEnvironment :: string

record adapter =
  sessionName :: string
  sessionExtra :: "KV option"
  sessionV2 :: "TracerSessionV2 option"
  exampleId :: "string option"
  tenantId :: "string option"
  requests :: "request list"

text \<open>\<^verbatim>\<open>ensureTenantId\<close>; \<^verbatim>\<open>if (this.tenantId)\<close> is a truthiness test.\<close>

definition ensureTenantId :: "envV2 \<Rightarrow> adapter \<Rightarrow> (exn + string) \<times> adapter" where
  "ensureTenantId en ad =
     (case (if truthy (tenantId ad) then tenantId ad else None) of
        Some t \<Rightarrow> (Inr t, ad)
      | None \<Rightarrow>
          (let url = endpoint en @ ''/tenants'';
               ad1 = ad\<lparr>requests := requests ad @ [Get url]\<rparr>
           in case fetch_tenants en (requests ad) of
                Inl e \<Rightarrow> (Inl e, ad1)
              | Inr response \<Rightarrow>
                  if \<not> ok response then
                    (Inl (FailedToFetchTenant (status response) (statusText response)
                            (body_text response)), ad1)
                  else
                    (case json response of
                       None \<Rightarrow> (Inl (NoTenantsFound url), ad1)
                     | Some [] \<Rightarrow> (Inl (NoTenantsFound url), ad1)
                     | Some (t # _) \<Rightarrow>
                         (Inr (tenant_ident t), ad1\<lparr>tenantId := Some (tenant_ident t)\<rparr>))))"

text \<open>\<^verbatim>\<open>ensureSession\<close>; a session is an object, hence truthy once set.\<close>

definition ensureSession :: "envV2 \<Rightarrow> adapter \<Rightarrow> (exn + TracerSessionV2) \<times> adapter" where
  "ensureSession en ad =
     (case sessionV2 ad of
        Some s \<Rightarrow> (Inr s, ad)
      | None \<Rightarrow>
          (case ensureTenantId en ad of
             (Inl e, ad1) \<Rightarrow> (Inl e, ad1)
           | (Inr tid, ad1) \<Rightarrow>
               (let req = PostSession (endpoint en @ ''/sessions?upsert=true'')
                            (sessionName ad1) tid (sessionExtra ad1);
                    ad2 = ad1\<lparr>requests := requests ad1 @ [req]\<rparr>
                in case fetch_session en (requests ad1) req of
                     Inl e \<Rightarrow> (Inl e, ad2)
                   | Inr res \<Rightarrow>
                       if \<not> ok res then
                         (Inl (FailedToCreateSession (status res) (statusText res)
                                 (body_text res)), ad2)
                       else (Inr (json res), ad2\<lparr>sessionV2 := Some (json res)\<rparr>))))"

text \<open>
  \<^verbatim>\<open>Promise.all\<close>: every conversion is started; the result is the list of values, or
  the first rejection.
\<close>

fun promise_all :: "(exn + 'a) list \<Rightarrow> exn + 'a list" where
  "promise_all [] = Inr []"
| "promise_all (Inl e # _) = Inl e"
| "promise_all (Inr x # rs) = (case promise_all rs of Inl e \<Rightarrow> Inl e | Inr xs \<Rightarrow> Inr (x # xs))"

text \<open>
  \<^verbatim>\<open>_convertToCreate(run, example_id = undefined)\<close>.  The recursive calls in
  \<^verbatim>\<open>run.child_runs.map((child_run) => this._convertToCreate(child_run))\<close> pass one
  argument, so \<open>example_id\<close> takes its default \<^verbatim>\<open>undefined\<close> there.
\<close>

fun convertToCreate :: "envV2 \<Rightarrow> RunV2 \<Rightarrow> string option \<Rightarrow> adapter \<Rightarrow> (exn + RunCreate) \<times> adapter"
  and convertChildren :: "envV2 \<Rightarrow> RunV2 list \<Rightarrow> adapter \<Rightarrow> (exn + RunCreate) list \<times> adapter"
where
  "convertToCreate en (RunV2 i n st et rt ex eo ser err inp out children) example_id ad =
     (case ensureSession en ad of
        (Inl e, ad1) \<Rightarrow> (Inl e, ad1)
      | (Inr s, ad1) \<Rightarrow>
          (let runExtra = AList.update ''runtime'' (getRuntimeEnvironment en)
                            (case ex of None \<Rightarrow> [] | Some kv \<Rightarrow> kv)
           in case convertChildren en children ad1 of
                (rs, ad2) \<Rightarrow>
                  (case promise_all rs of
                     Inl e \<Rightarrow> (Inl e, ad2)
                   | Inr cs \<Rightarrow>
                       (Inr (RunCreate i n st et rt example_id runExtra eo ser err inp
                               (case out of None \<Rightarrow> ''{}'' | Some v \<Rightarrow> v) (sess_id s) cs),
                        ad2))))"
| "convertChildren en [] ad = ([], ad)"
| "convertChildren en (child_run # rest) ad =
     (case convertToCreate en child_run None ad of
        (r, ad1) \<Rightarrow> (case convertChildren en rest ad1 of (rs, ad2) \<Rightarrow> (r # rs, ad2)))"

text \<open>\<^verbatim>\<open>persistRun\<close> of the adapter.\<close>

definition persistRunV2 :: "envV2 \<Rightarrow> RunV2 \<Rightarrow> adapter \<Rightarrow> exn option \<times> adapter" where
  "persistRunV2 en run ad =
     (case convertToCreate en run (exampleId ad) ad of
        (Inl e, ad1) \<Rightarrow> (Some e, ad1)
      | (Inr persistedRun, ad1) \<Rightarrow>
          (let req = PostRun (endpoint en @ ''/runs'') persistedRun;
               ad2 = ad1\<lparr>requests := requests ad1 @ [req]\<rparr>
           in case fetch_run en (requests ad1) req of
                Inl e \<Rightarrow> (Some e, ad2)
              | Inr response \<Rightarrow>
                  if \<not> ok response then
                    (Some (FailedToPersistRun (status response) (statusText response)
                             (body_text response)), ad2)
                  else (None, ad2)))"

text \<open>All proper descendants of a converted record, and the session-creation requests.\<close>

fun descendants :: "RunCreate \<Rightarrow> RunCreate list" where
  "descendants (RunCreate _ _ _ _ _ _ _ _ _ _ _ _ _ cs) =
     concat (map (\<lambda>c. c # descendants c) cs)"

fun is_PostSession :: "request \<Rightarrow> bool" where
  "is_PostSession (PostSession _ _ _ _) = True"
| "is_PostSession _ = False"

section \<open>Derived notions used in the statements\<close>

subsection \<open>Reading a call\<close>

text \<open>
  \<open>start_of\<close> gives the run id and the parent id of a start call, \<open>closes\<close> the run
  id of an end or error call.  \<open>touches p c\<close> holds when \<open>c\<close> starts or closes the id
  \<open>p\<close>: the calls that can replace or delete the registry entry of \<open>p\<close>.
\<close>

fun start_of :: "call \<Rightarrow> (uuid \<times> uuid option) option" where
  "start_of (LLMStart _ _ runId parentRunId _) = Some (runId, parentRunId)"
| "start_of (ChainStart _ _ runId parentRunId _) = Some (runId, parentRunId)"
| "start_of (ToolStart _ _ runId parentRunId _) = Some (runId, parentRunId)"
| "start_of _ = None"

fun closes :: "call \<Rightarrow> uuid option" where
  "closes (LLMEnd _ runId _) = Some runId"
| "closes (LLMError _ runId _) = Some runId"
| "closes (ChainEnd _ runId _) = Some runId"
| "closes (ChainError _ runId _) = Some runId"
| "closes (ToolEnd _ runId _) = Some runId"
| "closes (ToolError _ runId _) = Some runId"
| "closes _ = None"

definition touches :: "uuid \<Rightarrow> call \<Rightarrow> bool" where
  "touches p c = (map_option fst (start_of c) = Some p \<or> closes c = Some p)"

text \<open>
  The object literal a start handler builds, and the hook it calls; the three start
  handlers share this shape (lemma \<open>exec_start\<close> below).
\<close>

fun new_run :: "env \<Rightarrow> call \<Rightarrow> int \<Rightarrow> TracerSession \<Rightarrow> Run" where
  "new_run en (LLMStart llm prompts runId parentRunId now) order s =
     \<lparr>uuid = runId, parent_uuid = parentRunId, start_time = now, end_time = 0,
      execution_order = order, child_execution_order = order, serialized = llm,
      session_id = session_ident s, error = None, body = LLMRun prompts None\<rparr>"
| "new_run en (ChainStart chain inputs runId parentRunId now) order s =
     \<lparr>uuid = runId, parent_uuid = parentRunId, start_time = now, end_time = 0,
      execution_order = order, child_execution_order = order, serialized = chain,
      session_id = session_ident s, error = None,
      body = ChainRun inputs None None
        \<lparr>child_llm_runs = [], child_chain_runs = [], child_tool_runs = []\<rparr>\<rparr>"
| "new_run en (ToolStart tool' input' runId parentRunId now) order s =
     \<lparr>uuid = runId, parent_uuid = parentRunId, start_time = now, end_time = 0,
      execution_order = order, child_execution_order = order, serialized = tool',
      session_id = session_ident s, error = None,
      body = ToolRun input' None (JSON_stringify en tool')
        \<lparr>child_llm_runs = [], child_chain_runs = [], child_tool_runs = []\<rparr>\<rparr>"
| "new_run en _ order s = blank_run"

fun start_hook :: "env \<Rightarrow> call \<Rightarrow> (Run \<Rightarrow> exn option) option" where
  "start_hook en (LLMStart _ _ _ _ _) = onLLMStart en"
| "start_hook en (ChainStart _ _ _ _ _) = onChainStart en"
| "start_hook en (ToolStart _ _ _ _ _) = onToolStart en"
| "start_hook en _ = None"

text \<open>
  What an end or error handler does to the run before it calls its hook
  (\<open>finalize\<close>: end timestamp and success payload, or end timestamp and error message),
  the kind it requires, the error it raises when the run is unknown or of another
  kind, and its hook; the six handlers share this shape (lemma \<open>exec_close\<close> below).
\<close>

fun finalize :: "call \<Rightarrow> Run \<Rightarrow> Run" where
  "finalize (LLMEnd out _ now) r =
     (case body r of LLMRun ps _ \<Rightarrow> r\<lparr>end_time := now, body := LLMRun ps (Some out)\<rparr> | _ \<Rightarrow> r)"
| "finalize (ChainEnd out _ now) r =
     (case body r of ChainRun i _ acts cs \<Rightarrow> r\<lparr>end_time := now, body := ChainRun i (Some out) acts cs\<rparr>
      | _ \<Rightarrow> r)"
| "finalize (ToolEnd out _ now) r =
     (case body r of ToolRun i _ act cs \<Rightarrow> r\<lparr>end_time := now, body := ToolRun i (Some out) act cs\<rparr>
      | _ \<Rightarrow> r)"
| "finalize (LLMError msg _ now) r = r\<lparr>end_time := now, error := Some msg\<rparr>"
| "finalize (ChainError msg _ now) r = r\<lparr>end_time := now, error := Some msg\<rparr>"
| "finalize (ToolError msg _ now) r = r\<lparr>end_time := now, error := Some msg\<rparr>"
| "finalize _ r = r"

fun close_kind :: "call \<Rightarrow> RunType" where
  "close_kind (ChainEnd _ _ _) = Chain"
| "close_kind (ChainError _ _ _) = Chain"
| "close_kind (ToolEnd _ _ _) = Tool"
| "close_kind (ToolError _ _ _) = Tool"
| "close_kind _ = Llm"

fun no_run_error :: "call \<Rightarrow> exn" where
  "no_run_error (ChainEnd _ _ _) = NoChainRunToEnd"
| "no_run_error (ChainError _ _ _) = NoChainRunToEnd"
| "no_run_error (ToolEnd _ _ _) = NoToolRunToEnd"
| "no_run_error (ToolError _ _ _) = NoToolRunToEnd"
| "no_run_error _ = NoLLMRunToEnd"

fun end_hook :: "env \<Rightarrow> call \<Rightarrow> (Run \<Rightarrow> exn option) option" where
  "end_hook en (LLMEnd _ _ _) = onLLMEnd en"
| "end_hook en (LLMError _ _ _) = onLLMError en"
| "end_hook en (ChainEnd _ _ _) = onChainEnd en"
| "end_hook en (ChainError _ _ _) = onChainError en"
| "end_hook en (ToolEnd _ _ _) = onToolEnd en"
| "end_hook en (ToolError _ _ _) = onToolError en"
| "end_hook en _ = None"

fun close_time :: "call \<Rightarrow> int" where
  "close_time (LLMEnd _ _ now) = now"
| "close_time (LLMError _ _ now) = now"
| "close_time (ChainEnd _ _ now) = now"
| "close_time (ChainError _ _ now) = now"
| "close_time (ToolEnd _ _ now) = now"
| "close_time (ToolError _ _ now) = now"
| "close_time _ = 0"

text \<open>
  \<open>recorded c r\<close>: the run \<open>r\<close> carries what the end or error call \<open>c\<close> stores, the
  success payload of an end call or the message of an error call.
\<close>

fun recorded :: "call \<Rightarrow> Run \<Rightarrow> bool" where
  "recorded (LLMEnd out _ _) r = (case body r of LLMRun _ res \<Rightarrow> res = Some out | _ \<Rightarrow> False)"
| "recorded (ChainEnd out _ _) r = (case body r of ChainRun _ res _ _ \<Rightarrow> res = Some out | _ \<Rightarrow> False)"
| "recorded (ToolEnd out _ _) r = (case body r of ToolRun _ res _ _ \<Rightarrow> res = Some out | _ \<Rightarrow> False)"
| "recorded (LLMError msg _ _) r = (error r = Some msg)"
| "recorded (ChainError msg _ _) r = (error r = Some msg)"
| "recorded (ToolError msg _ _) r = (error r = Some msg)"
| "recorded _ r = False"

subsection \<open>Well-formed states and the frame of a call\<close>

text \<open>
  In a well-formed state every registry entry points to an allocated object that
  carries the key as its \<^verbatim>\<open>uuid\<close>.  The initial state is well formed and every call
  keeps it so.
\<close>

definition wf_tracer :: "tracer \<Rightarrow> bool" where
  "wf_tracer st = (\<forall>i a. runMap st i = Some a \<longrightarrow> a < next_addr st \<and> uuid (heap st a) = i)"

text \<open>
  \<open>grows r r'\<close>: the object keeps its identity, parent, kind and execution order, and
  its child-execution-order does not decrease.
\<close>

definition grows :: "Run \<Rightarrow> Run \<Rightarrow> bool" where
  "grows r r' =
     (uuid r' = uuid r \<and> parent_uuid r' = parent_uuid r \<and>
      execution_order r' = execution_order r \<and> run_type r' = run_type r \<and>
      child_execution_order r \<le> child_execution_order r')"

subsection \<open>Observing a sequence of calls\<close>


text \<open>
  The execution order of the run a start call has just registered, and the list of
  these orders along a sequence of calls, one entry per start call that returned.
\<close>

definition order_of :: "tracer \<Rightarrow> uuid \<Rightarrow> int option" where
  "order_of st i = map_option execution_order (lookup st i)"



section \<open>Example environments\<close>

text \<open>
  \<open>quiet_env\<close>: a session can be loaded, persistence accepts every run, no hook is
  registered.  The others differ from it in one collaborator.
\<close>

definition quiet_env :: env where
  "quiet_env =
     \<lparr>loadDefaultSession =
        Inr \<lparr>session_ident = 1, session_start_time = 0, session_name = None\<rparr>,
      persistRun = (\<lambda>h a. None), JSON_stringify = (\<lambda>s. s),
      onLLMStart = None, onLLMEnd = None, onLLMError = None,
      onChainStart = None, onChainEnd = None, onChainError = None,
      onToolStart = None, onToolEnd = None, onToolError = None, onAgentAction = None\<rparr>"

definition unreachable_env :: env where
  "unreachable_env =
     quiet_env\<lparr>loadDefaultSession := handleSessionResponse (Inl (External ''fetch failed'')) 0\<rparr>"

definition rejecting_env :: env where
  "rejecting_env =
     quiet_env\<lparr>persistRun := (\<lambda>h a. Some (FailedToPersistRun 500 ''Internal Server Error'' []))\<rparr>"

definition noisy_env :: env where
  "noisy_env = quiet_env\<lparr>onLLMEnd := Some (\<lambda>r. Some (External ''hook failed''))\<rparr>"

text \<open>Example states: one open root chain \<open>A\<close>.\<close>

definition one_chain :: tracer where
  "one_chain = run_calls quiet_env [ChainStart ''chain'' ''{}'' ''A'' None 0] init"

text \<open>
  An open root chain \<open>A\<close> with an open compute child \<open>B\<close>, and an open root
  compute run whose id is the empty string.
\<close>

definition chain_with_llm :: tracer where
  "chain_with_llm =
     run_calls quiet_env
       [ChainStart ''chain'' ''{}'' ''A'' None 0, LLMStart ''llm'' [''hi''] ''B'' (Some ''A'') 1] init"

definition llm_with_empty_id :: tracer where
  "llm_with_empty_id = run_calls quiet_env [LLMStart ''llm'' [''hi''] [] None 0] init"

text \<open>
  An open root tool run \<open>T\<close>, and the state in which the compute run \<open>child\<close> has been
  started with the empty string as its parent id under the run registered as \<^verbatim>\<open>""\<close>.
\<close>

definition one_tool :: tracer where
  "one_tool = run_calls quiet_env [ToolStart ''tool'' ''in'' ''T'' None 0] init"

definition child_of_empty_id :: tracer where
  "child_of_empty_id =
     run_calls quiet_env
       [LLMStart ''llm'' [''hi''] [] None 0, LLMStart ''llm'' [''hi''] ''child'' (Some []) 1] init"

subsection \<open>The adapter\<close>

text \<open>\<open>keeps ad ad'\<close>: a resolved session and a resolved tenant id are still there.\<close>

definition keeps :: "adapter \<Rightarrow> adapter \<Rightarrow> bool" where
  "keeps ad ad' =
     ((\<forall>s. sessionV2 ad = Some s \<longrightarrow> sessionV2 ad' = Some s) \<and>
      (\<forall>t. tenantId ad = Some t \<and> t \<noteq> [] \<longrightarrow> tenantId ad' = Some t) \<and>
      exampleId ad' = exampleId ad)"


text \<open>
  A remote store that answers every request, one that has no tenant, a fresh adapter
  with an example id, and a root run with one child.
\<close>

definition store_env :: envV2 where
  "store_env =
     \<lparr>endpoint = ''http://localhost:8000'',
      fetch_tenants = (\<lambda>log. Inr \<lparr>ok = True, status = 200, statusText = ''OK'', body_text = [],
                                   json = Some [\<lparr>tenant_ident = ''tenant-1''\<rparr>]\<rparr>),
      fetch_session = (\<lambda>log req. Inr \<lparr>ok = True, status = 200, statusText = ''OK'', body_text = [],
                                       json = \<lparr>sess_id = ''session-1'', sess_tenant_id = ''tenant-1'',
                                               sess_start_time = 0, sess_name = Some ''default''\<rparr>\<rparr>),
      fetch_run = (\<lambda>log req. Inr \<lparr>ok = True, status = 200, statusText = ''OK'', body_text = [],
                                   json = ()\<rparr>),
      getRuntimeEnvironment = ''node''\<rparr>"

definition empty_store_env :: envV2 where
  "empty_store_env =
     store_env\<lparr>fetch_tenants := (\<lambda>log. Inr \<lparr>ok = True, status = 200, statusText = ''OK'',
                                            body_text = [], json = Some []\<rparr>)\<rparr>"

text \<open>
  A remote store whose only tenant has the empty string as its id and which refuses
  to create a session.
\<close>

definition blank_tenant_env :: envV2 where
  "blank_tenant_env =
     store_env
       \<lparr>fetch_tenants := (\<lambda>log. Inr \<lparr>ok = True, status = 200, statusText = ''OK'',
                                     body_text = [], json = Some [\<lparr>tenant_ident = []\<rparr>]\<rparr>),
        fetch_session := (\<lambda>log req. Inr \<lparr>ok = False, status = 500,
                                         statusText = ''Internal Server Error'', body_text = [],
                                         json = \<lparr>sess_id = [], sess_tenant_id = [],
                                                 sess_start_time = 0, sess_name = None\<rparr>\<rparr>)\<rparr>"

definition new_adapter :: adapter where
  "new_adapter =
     \<lparr>sessionName = ''default'', sessionExtra = None, sessionV2 = None,
      exampleId = Some ''example-1'', tenantId = None, requests = []\<rparr>"

definition leaf_run :: RunV2 where
  "leaf_run = RunV2 ''B'' ''llm'' 1 2 ''llm'' None 2 ''{}'' None ''{}'' (Some ''{}'') []"

definition root_run :: RunV2 where
  "root_run = RunV2 ''A'' ''chain'' 0 3 ''chain'' None 1 ''{}'' None ''{}'' (Some ''{}'') [leaf_run]"

subsection \<open>Siblings\<close>

text \<open>
  \<open>closed_within en i cs st\<close>: running \<open>cs\<close> from \<open>st\<close>, the first call that starts or
  closes the id \<open>i\<close> is an end or error call for \<open>i\<close> that returns.
  \<open>child_pair p (s, e)\<close>: \<open>s\<close> starts a run under the parent \<open>p\<close> (with an id other than
  \<open>p\<close>) and \<open>e\<close> is an end or error call for that run.
\<close>

fun closed_within :: "env \<Rightarrow> uuid \<Rightarrow> call list \<Rightarrow> tracer \<Rightarrow> bool" where
  "closed_within en i [] st = False"
| "closed_within en i (c # cs) st =
     (if touches i c then closes c = Some i \<and> fst (exec en c st) = None
      else closed_within en i cs (snd (exec en c st)))"


section \<open>The shape of the handlers\<close>

text \<open>
  The three start handlers and the six end and error handlers are instances of two
  schemes; the proofs below work on the schemes.
\<close>


lemma exec_start:
  assumes "start_of c = Some (i, po)"
  shows "exec en c st =
     (case ensureDefaultSession en st of
        (Inl e, st1) \<Rightarrow> (Some e, st1)
      | (Inr s, st1) \<Rightarrow>
          (case getExecutionOrder st1 po of
             Inl e \<Rightarrow> (Some e, st1)
           | Inr order \<Rightarrow>
               (case startTrace (new_run en c order s) st1 of
                  Inl e \<Rightarrow> (Some e, st1)
                | Inr st2 \<Rightarrow> (call_hook (start_hook en c) (new_run en c order s), st2))))"
  using assms
  by (cases c)
     (auto simp add: handleLLMStart_def handleChainStart_def handleToolStart_def Let_def
        split: prod.splits sum.splits)

lemma new_run_fields:
  assumes "start_of c = Some (i, po)"
  shows "uuid (new_run en c k s) = i" "parent_uuid (new_run en c k s) = po"
    "execution_order (new_run en c k s) = k" "child_execution_order (new_run en c k s) = k"
  using assms by (cases c; simp)+

lemma exec_close:
  assumes "closes c = Some i"
  shows "exec en c st =
     (case runMap st i of
        None \<Rightarrow> (Some (no_run_error c), st)
      | Some a \<Rightarrow>
          if run_type (heap st a) \<noteq> close_kind c then (Some (no_run_error c), st)
          else
            (case call_hook (end_hook en c) (finalize c (heap st a)) of
               Some e \<Rightarrow> (Some e, st\<lparr>heap := (heap st)(a := finalize c (heap st a))\<rparr>)
             | None \<Rightarrow> endTrace en a (st\<lparr>heap := (heap st)(a := finalize c (heap st a))\<rparr>)))"
  using assms
  by (cases c)
     (auto simp add: handleLLMEnd_def handleLLMError_def handleChainEnd_def
        handleChainError_def handleToolEnd_def handleToolError_def Let_def run_type_def
        split: option.splits run_body.splits)

lemma grows_refl: "grows r r"
  by (simp add: grows_def)

lemma grows_trans: "grows r r' \<Longrightarrow> grows r' r'' \<Longrightarrow> grows r r''"
  by (auto simp add: grows_def)

lemma grows_finalize: "grows r (finalize c r)"
  by (cases c) (auto simp add: grows_def run_type_def split: run_body.splits)

lemma finalize_fields:
  "uuid (finalize c r) = uuid r" "parent_uuid (finalize c r) = parent_uuid r"
  "child_execution_order (finalize c r) = child_execution_order r"
  "execution_order (finalize c r) = execution_order r"
  by (cases c; simp split: run_body.splits)+

lemma call_kinds:
  "(\<exists>i po. start_of c = Some (i, po)) \<or> (\<exists>i. closes c = Some i) \<or> (\<exists>act i. c = AgentActionCall act i)"
  by (cases c) simp_all

lemma startTrace_Inr:
  assumes "startTrace run st = Inr st'"
  shows "next_addr st' = Suc (next_addr st)"
    and "runMap st' = (runMap st)(uuid run \<mapsto> next_addr st)"
    and "heap st' (next_addr st) = run"
    and "session st' = session st"
    and "persist_calls st' = persist_calls st"
    and "b \<noteq> next_addr st \<Longrightarrow> grows (heap st b) (heap st' b)"
    and "b \<noteq> next_addr st \<Longrightarrow> child_execution_order (heap st' b) = child_execution_order (heap st b)"
  using assms
  by (auto simp add: startTrace_def Let_def grows_def run_type_def
      split: option.splits run_body.splits if_splits)

lemma startTrace_Inl:
  assumes "startTrace run st = Inl e"
  shows "\<exists>p. parent_uuid run = Some p \<and> p \<noteq> [] \<and>
           (case runMap st p of
              None \<Rightarrow> e = CallerRunNotFound p
            | Some pa \<Rightarrow> run_type (heap st pa) = Llm \<and> e = CallerNotToolOrChain)"
  using assms
  by (cases "parent_uuid run")
     (auto simp add: startTrace_def Let_def run_type_def
      split: option.splits run_body.splits if_splits)

lemma endTrace_frame:
  assumes "endTrace en a st = (r, st')"
  shows "next_addr st' = next_addr st"
    and "session st' = session st"
    and "grows (heap st b) (heap st' b)"
    and "r = None \<Longrightarrow> runMap st' = (runMap st)(uuid (heap st a) := None)"
    and "r \<noteq> None \<Longrightarrow> runMap st' = runMap st \<and> heap st' = heap st"
  using assms
  by (auto simp add: endTrace_def Let_def grows_def run_type_def
      split: option.splits if_splits)

lemma ensureDefaultSession_frame:
  assumes "ensureDefaultSession en st = (r, st')"
  shows "runMap st' = runMap st" "heap st' = heap st" "next_addr st' = next_addr st"
    "persist_calls st' = persist_calls st"
  using assms
  by (auto simp add: ensureDefaultSession_def split: option.splits sum.splits)

lemma exec_start_frame:
  assumes c: "start_of c = Some (i, po)" and wf: "wf_tracer st" and ex: "exec en c st = (r, st')"
  shows "wf_tracer st'" and "next_addr st \<le> next_addr st'"
    and "b < next_addr st \<Longrightarrow> grows (heap st b) (heap st' b)"
    and "p \<noteq> i \<Longrightarrow> runMap st' p = runMap st p"
proof -
  obtain r0 st1 where e0: "ensureDefaultSession en st = (r0, st1)"
    by (cases "ensureDefaultSession en st")
  note f0 = ensureDefaultSession_frame[OF e0]
  have "wf_tracer st' \<and> next_addr st \<le> next_addr st' \<and>
        (b < next_addr st \<longrightarrow> grows (heap st b) (heap st' b)) \<and>
        (p \<noteq> i \<longrightarrow> runMap st' p = runMap st p)"
  proof (cases r0)
    case (Inl e)
    with ex e0 c have "st' = st1" by (simp add: exec_start)
    with f0 wf show ?thesis by (simp add: wf_tracer_def grows_refl)
  next
    case (Inr s)
    show ?thesis
    proof (cases "getExecutionOrder st1 po")
      case (Inl e)
      with ex e0 c Inr have "st' = st1" by (simp add: exec_start)
      with f0 wf show ?thesis by (simp add: wf_tracer_def grows_refl)
    next
      case ord: (Inr k)
      show ?thesis
      proof (cases "startTrace (new_run en c k s) st1")
        case (Inl e)
        with ex e0 c Inr ord have "st' = st1" by (simp add: exec_start)
        with f0 wf show ?thesis by (simp add: wf_tracer_def grows_refl)
      next
        case st2: (Inr st2)
        with ex e0 c Inr ord have st': "st' = st2" by (simp add: exec_start)
        note t = startTrace_Inr[OF st2]
        have u: "uuid (new_run en c k s) = i" using c by (rule new_run_fields)
        have g: "\<And>a. a < next_addr st \<Longrightarrow> grows (heap st a) (heap st' a)"
          using t(6) f0 st' by simp
        have "wf_tracer st'"
          unfolding wf_tracer_def
        proof (intro allI impI)
          fix j a assume ja: "runMap st' j = Some a"
          show "a < next_addr st' \<and> uuid (heap st' a) = j"
          proof (cases "j = i")
            case True
            with ja t(2) u st' f0 have "a = next_addr st" by simp
            with t(1) t(3) u st' f0 True show ?thesis by simp
          next
            case False
            with ja t(2) u st' f0 have "runMap st j = Some a" by simp
            with wf have a: "a < next_addr st" "uuid (heap st a) = j" by (auto simp: wf_tracer_def)
            from g[OF a(1)] have "uuid (heap st' a) = uuid (heap st a)" by (simp add: grows_def)
            with a t(1) st' f0 show ?thesis by simp
          qed
        qed
        moreover have "next_addr st \<le> next_addr st'" using t(1) st' f0 by simp
        moreover have "p \<noteq> i \<longrightarrow> runMap st' p = runMap st p" using t(2) u st' f0 by simp
        ultimately show ?thesis using g by blast
      qed
    qed
  qed
  then show "wf_tracer st'" and "next_addr st \<le> next_addr st'"
    and "b < next_addr st \<Longrightarrow> grows (heap st b) (heap st' b)"
    and "p \<noteq> i \<Longrightarrow> runMap st' p = runMap st p"
    by blast+
qed

lemma exec_close_frame:
  assumes c: "closes c = Some i" and wf: "wf_tracer st" and ex: "exec en c st = (r, st')"
  shows "wf_tracer st'" and "next_addr st' = next_addr st"
    and "grows (heap st b) (heap st' b)"
    and "p \<noteq> i \<Longrightarrow> runMap st' p = runMap st p"
proof -
  have "wf_tracer st' \<and> next_addr st' = next_addr st \<and> grows (heap st b) (heap st' b) \<and>
        (p \<noteq> i \<longrightarrow> runMap st' p = runMap st p)"
  proof (cases "runMap st i")
    case None
    with ex c have "st' = st" by (simp add: exec_close)
    with wf show ?thesis by (simp add: grows_refl)
  next
    case (Some a)
    with wf have a: "a < next_addr st" "uuid (heap st a) = i" by (auto simp: wf_tracer_def)
    let ?st1 = "st\<lparr>heap := (heap st)(a := finalize c (heap st a))\<rparr>"
    have wf1: "wf_tracer ?st1" using wf by (auto simp add: wf_tracer_def finalize_fields)
    have g1: "\<And>b. grows (heap st b) (heap ?st1 b)" by (simp add: grows_refl grows_finalize)
    show ?thesis
    proof (cases "run_type (heap st a) \<noteq> close_kind c")
      case True
      with ex c Some have "st' = st" by (simp add: exec_close)
      with wf show ?thesis by (simp add: grows_refl)
    next
      case False
      show ?thesis
      proof (cases "call_hook (end_hook en c) (finalize c (heap st a))")
        case (Some e)
        with ex c \<open>runMap st i = Some a\<close> False have "st' = ?st1" by (simp add: exec_close)
        with wf1 g1 show ?thesis by simp
      next
        case None
        with ex c \<open>runMap st i = Some a\<close> False have et: "endTrace en a ?st1 = (r, st')"
          by (simp add: exec_close)
        note f = endTrace_frame[OF et]
        have u: "uuid (heap ?st1 a) = i" using a by (simp add: finalize_fields)
        have rm: "runMap st' = runMap st \<or> runMap st' = (runMap st)(i := None)"
          using f(4) f(5) u by (cases r) auto
        have g: "\<And>b. grows (heap st b) (heap st' b)"
          using g1 f(3) grows_trans by blast
        have "wf_tracer st'"
          unfolding wf_tracer_def
        proof (intro allI impI)
          fix j b assume "runMap st' j = Some b"
          with rm have "runMap st j = Some b" by (auto split: if_splits)
          with wf have "b < next_addr st" "uuid (heap st b) = j" by (auto simp: wf_tracer_def)
          with g[of b] f(1) show "b < next_addr st' \<and> uuid (heap st' b) = j"
            by (simp add: grows_def)
        qed
        with f(1) g rm show ?thesis by auto
      qed
    qed
  qed
  then show "wf_tracer st'" and "next_addr st' = next_addr st"
    and "grows (heap st b) (heap st' b)"
    and "p \<noteq> i \<Longrightarrow> runMap st' p = runMap st p"
    by blast+
qed

lemma exec_action_heap:
  assumes "exec en (AgentActionCall act i) st = (r, st')"
  shows "runMap st' = runMap st" and "next_addr st' = next_addr st"
    and "grows (heap st b) (heap st' b)"
  using assms
  by (auto simp add: handleAgentAction_def Let_def grows_def run_type_def
      split: option.splits run_body.splits)

lemma exec_action_frame:
  assumes wf: "wf_tracer st" and ex: "exec en (AgentActionCall act i) st = (r, st')"
  shows "wf_tracer st'" and "next_addr st' = next_addr st"
    and "grows (heap st b) (heap st' b)"
    and "runMap st' = runMap st"
proof -
  note h = exec_action_heap[OF ex]
  show "wf_tracer st'"
    unfolding wf_tracer_def
  proof (intro allI impI)
    fix j a assume "runMap st' j = Some a"
    with h(1) have "runMap st j = Some a" by simp
    with wf have "a < next_addr st" "uuid (heap st a) = j" by (auto simp: wf_tracer_def)
    with h(2) h(3)[of a] show "a < next_addr st' \<and> uuid (heap st' a) = j"
      by (simp add: grows_def)
  qed
  show "next_addr st' = next_addr st" "grows (heap st b) (heap st' b)" "runMap st' = runMap st"
    using h by simp_all
qed

lemma exec_frame:
  assumes wf: "wf_tracer st" and ex: "exec en c st = (r, st')"
  shows "wf_tracer st'" and "next_addr st \<le> next_addr st'"
    and "b < next_addr st \<Longrightarrow> grows (heap st b) (heap st' b)"
    and "\<not> touches p c \<Longrightarrow> runMap st' p = runMap st p"
proof -
  consider (start) i po where "start_of c = Some (i, po)"
    | (close) i where "closes c = Some i"
    | (action) act i where "c = AgentActionCall act i"
    using call_kinds[of c] by blast
  then have "wf_tracer st' \<and> next_addr st \<le> next_addr st' \<and>
        (b < next_addr st \<longrightarrow> grows (heap st b) (heap st' b)) \<and>
        (\<not> touches p c \<longrightarrow> runMap st' p = runMap st p)"
  proof cases
    case start
    from exec_start_frame[OF start wf ex] start show ?thesis
      by (auto simp add: touches_def)
  next
    case close
    from exec_close_frame[OF close wf ex] close show ?thesis
      by (auto simp add: touches_def)
  next
    case action
    from exec_action_frame[OF wf ex[unfolded action]] show ?thesis by simp
  qed
  then show "wf_tracer st'" and "next_addr st \<le> next_addr st'"
    and "b < next_addr st \<Longrightarrow> grows (heap st b) (heap st' b)"
    and "\<not> touches p c \<Longrightarrow> runMap st' p = runMap st p"
    by blast+
qed

lemma wf_tracer_init: "wf_tracer init"
  by (simp add: wf_tracer_def init_def)

lemma run_calls_frame:
  assumes "wf_tracer st"
  shows "wf_tracer (run_calls en cs st)"
    and "next_addr st \<le> next_addr (run_calls en cs st)"
    and "b < next_addr st \<Longrightarrow> grows (heap st b) (heap (run_calls en cs st) b)"
    and "\<forall>c\<in>set cs. \<not> touches p c \<Longrightarrow> runMap (run_calls en cs st) p = runMap st p"
proof -
  have "wf_tracer (run_calls en cs st) \<and> next_addr st \<le> next_addr (run_calls en cs st) \<and>
     (b < next_addr st \<longrightarrow> grows (heap st b) (heap (run_calls en cs st) b)) \<and>
     ((\<forall>c\<in>set cs. \<not> touches p c) \<longrightarrow> runMap (run_calls en cs st) p = runMap st p)"
    using assms
  proof (induction cs arbitrary: st)
    case Nil
    then show ?case by (simp add: grows_refl)
  next
    case (Cons c cs)
    obtain r st1 where ex: "exec en c st = (r, st1)" by (cases "exec en c st")
    note f = exec_frame[OF Cons.prems ex]
    from Cons.IH[OF f(1)] f ex show ?case
      by (auto intro: grows_trans)
  qed
  then show "wf_tracer (run_calls en cs st)"
    and "next_addr st \<le> next_addr (run_calls en cs st)"
    and "b < next_addr st \<Longrightarrow> grows (heap st b) (heap (run_calls en cs st) b)"
    and "\<forall>c\<in>set cs. \<not> touches p c \<Longrightarrow> runMap (run_calls en cs st) p = runMap st p"
    by blast+
qed



section \<open>Starting a run\<close>

lemma getExecutionOrder_cong:
  "runMap st1 = runMap st \<Longrightarrow> heap st1 = heap st \<Longrightarrow> getExecutionOrder st1 po = getExecutionOrder st po"
  by (cases po) (simp_all add: getExecutionOrder_def lookup_def)

lemma ensureDefaultSession_cases:
  assumes "ensureDefaultSession en st = (r0, st1)"
  shows "(\<exists>e. r0 = Inl e \<and> st1 = st \<and> session st = None \<and> loadDefaultSession en = Inl e) \<or>
     (\<exists>s. r0 = Inr s \<and> session st1 = Some s \<and>
        (session st = Some s \<and> st1 = st \<or>
         session st = None \<and> loadDefaultSession en = Inr s \<and> st1 = st\<lparr>session := Some s\<rparr>))"
proof (cases "session st")
  case (Some s)
  with assms show ?thesis by (simp add: ensureDefaultSession_def)
next
  case None
  show ?thesis
  proof (cases "loadDefaultSession en")
    case (Inl e)
    with assms None have "r0 = Inl e" "st1 = st" by (simp_all add: ensureDefaultSession_def)
    with None Inl show ?thesis by simp
  next
    case (Inr s)
    with assms None have "r0 = Inr s" "st1 = st\<lparr>session := Some s\<rparr>"
      by (simp_all add: ensureDefaultSession_def)
    with None Inr show ?thesis by simp
  qed
qed

text \<open>Case analysis of a start call.\<close>

lemma exec_start_cases:
  assumes c: "start_of c = Some (i, po)" and ex: "exec en c st = (r, st')"
  obtains
    (bootstrap) e where "session st = None" "loadDefaultSession en = Inl e" "r = Some e" "st' = st"
  | (unresolved) e s where "fst (ensureDefaultSession en st) = Inr s"
      "getExecutionOrder st po = Inl e" "r = Some e" "st' = snd (ensureDefaultSession en st)"
  | (rejected) e s k where "fst (ensureDefaultSession en st) = Inr s"
      "getExecutionOrder st po = Inr k"
      "startTrace (new_run en c k s) (snd (ensureDefaultSession en st)) = Inl e"
      "r = Some e" "st' = snd (ensureDefaultSession en st)"
  | (registered) s k where "fst (ensureDefaultSession en st) = Inr s"
      "getExecutionOrder st po = Inr k"
      "startTrace (new_run en c k s) (snd (ensureDefaultSession en st)) = Inr st'"
      "r = call_hook (start_hook en c) (new_run en c k s)"
proof -
  obtain r0 st1 where e0: "ensureDefaultSession en st = (r0, st1)"
    by (cases "ensureDefaultSession en st")
  note f0 = ensureDefaultSession_frame[OF e0]
  have g: "getExecutionOrder st1 po = getExecutionOrder st po"
    using f0(1,2) by (rule getExecutionOrder_cong)
  show thesis
  proof (cases r0)
    case (Inl e)
    with ensureDefaultSession_cases[OF e0] have "session st = None" "loadDefaultSession en = Inl e" "st1 = st"
      by auto
    moreover from ex e0 c Inl have "r = Some e" "st' = st1" by (simp_all add: exec_start)
    ultimately show thesis using bootstrap by simp
  next
    case (Inr s)
    show thesis
    proof (cases "getExecutionOrder st po")
      case (Inl e)
      with ex e0 c Inr g have "r = Some e" "st' = st1" by (simp_all add: exec_start)
      with unresolved[of s e] Inl Inr e0 show thesis by simp
    next
      case ord: (Inr k)
      show thesis
      proof (cases "startTrace (new_run en c k s) st1")
        case (Inl e)
        with ex e0 c Inr ord g have "r = Some e" "st' = st1" by (simp_all add: exec_start)
        with rejected[of s k e] Inl Inr ord e0 show thesis by simp
      next
        case st2: (Inr st2)
        with ex e0 c Inr ord g have "r = call_hook (start_hook en c) (new_run en c k s)" "st' = st2"
          by (simp_all add: exec_start)
        with registered[of s k] st2 Inr ord e0 show thesis by simp
      qed
    qed
  qed
qed

text \<open>
  When a session is at hand, the order resolves and \<^verbatim>\<open>_startTrace\<close> accepts the parent, a
  start call registers the object it has built and returns what its hook returns.
\<close>

lemma start_registers:
  assumes c: "start_of c = Some (i, po)" and ex: "exec en c st = (r, st')"
    and s: "session st = Some s \<or> session st = None \<and> loadDefaultSession en = Inr s"
    and k: "getExecutionOrder st po = Inr k"
    and acc: "\<forall>p pa. po = Some p \<and> p \<noteq> [] \<and> runMap st p = Some pa \<longrightarrow> run_type (heap st pa) \<noteq> Llm"
  shows "runMap st' = (runMap st)(i \<mapsto> next_addr st)"
    and "heap st' (next_addr st) = new_run en c k s"
    and "next_addr st' = Suc (next_addr st)"
    and "r = call_hook (start_hook en c) (new_run en c k s)"
proof -
  obtain r0 st1 where e0: "ensureDefaultSession en st = (r0, st1)"
    by (cases "ensureDefaultSession en st")
  note f0 = ensureDefaultSession_frame[OF e0]
  from s e0 have r0: "r0 = Inr s"
    by (auto simp add: ensureDefaultSession_def)
  have "runMap st' = (runMap st)(i \<mapsto> next_addr st) \<and>
        heap st' (next_addr st) = new_run en c k s \<and>
        next_addr st' = Suc (next_addr st) \<and>
        r = call_hook (start_hook en c) (new_run en c k s)"
    using c ex
  proof (cases rule: exec_start_cases)
    case (bootstrap e)
    with s show ?thesis by simp
  next
    case (unresolved e s')
    with k show ?thesis by simp
  next
    case (rejected e s' k')
    from rejected(1) e0 r0 have "s' = s" by simp
    moreover from rejected(2) k have "k' = k" by simp
    ultimately have "startTrace (new_run en c k s) st1 = Inl e"
      using rejected(3) e0 by simp
    from startTrace_Inl[OF this] obtain p where p: "parent_uuid (new_run en c k s) = Some p"
      "p \<noteq> []"
      "case runMap st1 p of None \<Rightarrow> e = CallerRunNotFound p
         | Some pa \<Rightarrow> run_type (heap st1 pa) = Llm \<and> e = CallerNotToolOrChain"
      by blast
    from p(1) new_run_fields(2)[OF c, of en k s] have po: "po = Some p" by simp
    with k obtain pa where pa: "runMap st p = Some pa"
      by (auto simp add: getExecutionOrder_def lookup_def split: option.splits)
    with p(3) f0 have "run_type (heap st pa) = Llm" by simp
    with acc po p(2) pa show ?thesis by blast
  next
    case (registered s' k')
    from registered(1) e0 r0 have "s' = s" by simp
    moreover from registered(2) k have "k' = k" by simp
    ultimately have tr: "startTrace (new_run en c k s) st1 = Inr st'"
      and r: "r = call_hook (start_hook en c) (new_run en c k s)"
      using registered(3,4) e0 by simp_all
    note t = startTrace_Inr[OF tr]
    from t(1,2,3) new_run_fields(1)[OF c, of en k s] f0 r show ?thesis by simp
  qed
  then show "runMap st' = (runMap st)(i \<mapsto> next_addr st)"
    and "heap st' (next_addr st) = new_run en c k s"
    and "next_addr st' = Suc (next_addr st)"
    and "r = call_hook (start_hook en c) (new_run en c k s)"
    by blast+
qed

text \<open>
  C1.  The execution order resolved for a start call is 1 when no parent id is
  supplied, the parent's current child-execution-order plus 1 when the supplied parent
  id is registered, and resolution raises \<open>ParentRunNotFound\<close> when it is not.  Every
  start call of the three kinds that has a session at hand (already set, or loaded),
  whose order resolves to \<open>k\<close> and whose parent \<^verbatim>\<open>_startTrace\<close> accepts, registers under
  its run id a new object (the object literal of its handler) whose execution order
  and child-execution-order are both \<open>k\<close>, and returns what its start hook returns.
  Conversely, whenever a start call changes the registry or the objects, or returns
  without raising, the run registered under its id has both orders equal to the
  resolved value.
\<close>

theorem C1_execution_order_resolution:
  "getExecutionOrder st None = Inr 1 \<and>
   (runMap st p = Some a \<longrightarrow>
      getExecutionOrder st (Some p) = Inr (child_execution_order (heap st a) + 1)) \<and>
   (runMap st p = None \<longrightarrow> getExecutionOrder st (Some p) = Inl (ParentRunNotFound p)) \<and>
   (start_of c = Some (i, po) \<and> exec en c st = (r, st') \<and>
      (r = None \<or> runMap st' \<noteq> runMap st \<or> heap st' \<noteq> heap st) \<longrightarrow>
      (\<exists>k b. getExecutionOrder st po = Inr k \<and> runMap st' i = Some b \<and>
             execution_order (heap st' b) = k \<and> child_execution_order (heap st' b) = k)) \<and>
   (start_of c = Some (i, po) \<and> exec en c st = (r, st') \<and>
      (session st = Some s \<or> session st = None \<and> loadDefaultSession en = Inr s) \<and>
      getExecutionOrder st po = Inr k \<and>
      (\<forall>q qa. po = Some q \<and> q \<noteq> [] \<and> runMap st q = Some qa \<longrightarrow>
         run_type (heap st qa) \<noteq> Llm) \<longrightarrow>
      runMap st' = (runMap st)(i \<mapsto> next_addr st) \<and>
      heap st' (next_addr st) = new_run en c k s \<and>
      uuid (heap st' (next_addr st)) = i \<and>
      parent_uuid (heap st' (next_addr st)) = po \<and>
      execution_order (heap st' (next_addr st)) = k \<and>
      child_execution_order (heap st' (next_addr st)) = k \<and>
      r = call_hook (start_hook en c) (heap st' (next_addr st)))"
proof (intro conjI impI)
  show "getExecutionOrder st None = Inr 1"
    by (simp add: getExecutionOrder_def)
  show "getExecutionOrder st (Some p) = Inr (child_execution_order (heap st a) + 1)"
    if "runMap st p = Some a"
    using that by (simp add: getExecutionOrder_def lookup_def)
  show "getExecutionOrder st (Some p) = Inl (ParentRunNotFound p)" if "runMap st p = None"
    using that by (simp add: getExecutionOrder_def lookup_def)
next
  assume h: "start_of c = Some (i, po) \<and> exec en c st = (r, st') \<and>
      (r = None \<or> runMap st' \<noteq> runMap st \<or> heap st' \<noteq> heap st)"
  then have c: "start_of c = Some (i, po)" and ex: "exec en c st = (r, st')"
    and ch: "r = None \<or> runMap st' \<noteq> runMap st \<or> heap st' \<noteq> heap st"
    by blast+
  obtain r0 st1 where e0: "ensureDefaultSession en st = (r0, st1)"
    by (cases "ensureDefaultSession en st")
  note f0 = ensureDefaultSession_frame[OF e0]
  from c ex show "\<exists>k b. getExecutionOrder st po = Inr k \<and> runMap st' i = Some b \<and>
             execution_order (heap st' b) = k \<and> child_execution_order (heap st' b) = k"
  proof (cases rule: exec_start_cases)
    case (bootstrap e)
    with ch show ?thesis by simp
  next
    case (unresolved e s)
    from unresolved(4) e0 have "st' = st1" by simp
    with ch f0 unresolved(3) show ?thesis by simp
  next
    case (rejected e s k)
    from rejected(5) e0 have "st' = st1" by simp
    with ch f0 rejected(4) show ?thesis by simp
  next
    case (registered s k)
    note t = startTrace_Inr[OF registered(3)]
    note n = new_run_fields[OF c, of en k s]
    have "runMap st' i = Some (next_addr (snd (ensureDefaultSession en st)))"
      using t(2) n(1) by simp
    moreover have "execution_order (heap st' (next_addr (snd (ensureDefaultSession en st)))) = k"
      using t(3) n(3) by simp
    moreover have "child_execution_order (heap st' (next_addr (snd (ensureDefaultSession en st)))) = k"
      using t(3) n(4) by simp
    ultimately show ?thesis using registered(2) by blast
  qed
next
  assume h: "start_of c = Some (i, po) \<and> exec en c st = (r, st') \<and>
      (session st = Some s \<or> session st = None \<and> loadDefaultSession en = Inr s) \<and>
      getExecutionOrder st po = Inr k \<and>
      (\<forall>q qa. po = Some q \<and> q \<noteq> [] \<and> runMap st q = Some qa \<longrightarrow>
         run_type (heap st qa) \<noteq> Llm)"
  then have c: "start_of c = Some (i, po)" and ex: "exec en c st = (r, st')"
    and s: "session st = Some s \<or> session st = None \<and> loadDefaultSession en = Inr s"
    and k: "getExecutionOrder st po = Inr k"
    and acc: "\<forall>q qa. po = Some q \<and> q \<noteq> [] \<and> runMap st q = Some qa \<longrightarrow>
         run_type (heap st qa) \<noteq> Llm"
    by blast+
  note reg = start_registers[OF c ex s k acc]
  note n = new_run_fields[OF c, of en k s]
  show "runMap st' = (runMap st)(i \<mapsto> next_addr st)" by (rule reg(1))
  show "heap st' (next_addr st) = new_run en c k s" by (rule reg(2))
  show "uuid (heap st' (next_addr st)) = i" using reg(2) n(1) by simp
  show "parent_uuid (heap st' (next_addr st)) = po" using reg(2) n(2) by simp
  show "execution_order (heap st' (next_addr st)) = k" using reg(2) n(3) by simp
  show "child_execution_order (heap st' (next_addr st)) = k" using reg(2) n(4) by simp
  show "r = call_hook (start_hook en c) (heap st' (next_addr st))" using reg(2,4) by simp
qed

section \<open>Evaluating the model on concrete calls\<close>

lemmas model_defs =
  handleLLMStart_def handleLLMEnd_def handleLLMError_def
  handleChainStart_def handleChainEnd_def handleChainError_def
  handleToolStart_def handleToolEnd_def handleToolError_def handleAgentAction_def
  ensureDefaultSession_def getExecutionOrder_def startTrace_def endTrace_def
  call_hook_def addChildRun_def run_type_def lookup_def Let_def init_def
  quiet_env_def

lemma one_chain_state:
  "runMap one_chain = [''A'' \<mapsto> 0]" "next_addr one_chain = 1"
  "session one_chain = Some \<lparr>session_ident = 1, session_start_time = 0, session_name = None\<rparr>"
  "persist_calls one_chain = []"
  "heap one_chain 0 = \<lparr>uuid = ''A'', parent_uuid = None, start_time = 0, end_time = 0,
      execution_order = 1, child_execution_order = 1, serialized = ''chain'',
      session_id = 1, error = None,
      body = ChainRun ''{}'' None None
        \<lparr>child_llm_runs = [], child_chain_runs = [], child_tool_runs = []\<rparr>\<rparr>"
  by (simp_all add: one_chain_def model_defs)

text \<open>
  C1 on the open chain \<open>A\<close>: resolution without a parent, under \<open>A\<close> and under an
  unknown id, and the start of a compute run, of a chain and of a tool under \<open>A\<close>.
\<close>

theorem C1_execution_order_resolution_witness:
  "getExecutionOrder one_chain None = Inr 1 \<and>
   getExecutionOrder one_chain (Some ''A'') = Inr 2 \<and>
   getExecutionOrder one_chain (Some ''B'') = Inl (ParentRunNotFound ''B'') \<and>
   exec quiet_env (LLMStart ''llm'' [] ''B'' (Some ''A'') 1) one_chain =
     (None, snd (exec quiet_env (LLMStart ''llm'' [] ''B'' (Some ''A'') 1) one_chain)) \<and>
   runMap (snd (exec quiet_env (LLMStart ''llm'' [] ''B'' (Some ''A'') 1) one_chain)) ''B'' = Some 1 \<and>
   execution_order
     (heap (snd (exec quiet_env (LLMStart ''llm'' [] ''B'' (Some ''A'') 1) one_chain)) 1) = 2 \<and>
   child_execution_order
     (heap (snd (exec quiet_env (LLMStart ''llm'' [] ''B'' (Some ''A'') 1) one_chain)) 1) = 2 \<and>
   runMap (snd (exec quiet_env (ChainStart ''chain'' ''{}'' ''C'' (Some ''A'') 1) one_chain)) ''C'' = Some 1 \<and>
   execution_order
     (heap (snd (exec quiet_env (ChainStart ''chain'' ''{}'' ''C'' (Some ''A'') 1) one_chain)) 1) = 2 \<and>
   child_execution_order
     (heap (snd (exec quiet_env (ChainStart ''chain'' ''{}'' ''C'' (Some ''A'') 1) one_chain)) 1) = 2 \<and>
   fst (exec quiet_env (ToolStart ''tool'' ''in'' ''T'' (Some ''A'') 1) one_chain) = None \<and>
   runMap (snd (exec quiet_env (ToolStart ''tool'' ''in'' ''T'' (Some ''A'') 1) one_chain)) ''T'' = Some 1 \<and>
   execution_order
     (heap (snd (exec quiet_env (ToolStart ''tool'' ''in'' ''T'' (Some ''A'') 1) one_chain)) 1) = 2 \<and>
   child_execution_order
     (heap (snd (exec quiet_env (ToolStart ''tool'' ''in'' ''T'' (Some ''A'') 1) one_chain)) 1) = 2"
proof -
  let ?s = "\<lparr>session_ident = 1, session_start_time = 0, session_name = None\<rparr>"
  let ?l = "LLMStart ''llm'' [] ''B'' (Some ''A'') 1"
  let ?c = "ChainStart ''chain'' ''{}'' ''C'' (Some ''A'') 1"
  let ?t = "ToolStart ''tool'' ''in'' ''T'' (Some ''A'') 1"
  have a: "runMap one_chain ''A'' = Some 0" and b: "runMap one_chain ''B'' = None"
    and k: "child_execution_order (heap one_chain 0) = 1"
    and n: "next_addr one_chain = 1"
    and s: "session one_chain = Some ?s"
    and ty: "run_type (heap one_chain 0) \<noteq> Llm"
    by (simp_all add: one_chain_state run_type_def)
  have h: "start_hook quiet_env ?l = None" "start_hook quiet_env ?c = None"
    "start_hook quiet_env ?t = None"
    by (simp_all add: quiet_env_def)
  note A = C1_execution_order_resolution[where st = one_chain and p = "''A''" and a = 0]
  note B = C1_execution_order_resolution[where st = one_chain and p = "''B''"]
  have r1: "getExecutionOrder one_chain None = Inr 1"
    using A[THEN conjunct1] .
  have r2: "getExecutionOrder one_chain (Some ''A'') = Inr 2"
    using A[THEN conjunct2, THEN conjunct1] a k by simp
  have r3: "getExecutionOrder one_chain (Some ''B'') = Inl (ParentRunNotFound ''B'')"
    using B[THEN conjunct2, THEN conjunct2, THEN conjunct1] b by simp
  have acc: "\<forall>q qa. Some ''A'' = Some q \<and> q \<noteq> [] \<and> runMap one_chain q = Some qa \<longrightarrow>
         run_type (heap one_chain qa) \<noteq> Llm"
    using ty by (simp add: one_chain_state)
  note R = C1_execution_order_resolution[where st = one_chain and po = "Some ''A''"
      and en = quiet_env and s = ?s and k = 2,
      THEN conjunct2, THEN conjunct2, THEN conjunct2, THEN conjunct2, rule_format]
  have L: "runMap (snd (exec quiet_env ?l one_chain)) ''B'' = Some 1 \<and>
      execution_order (heap (snd (exec quiet_env ?l one_chain)) 1) = 2 \<and>
      child_execution_order (heap (snd (exec quiet_env ?l one_chain)) 1) = 2 \<and>
      fst (exec quiet_env ?l one_chain) = None"
    using R[where c = ?l and i = "''B''" and r = "fst (exec quiet_env ?l one_chain)"
        and st' = "snd (exec quiet_env ?l one_chain)"] s r2 acc n h
    by (simp add: call_hook_def)
  have C: "runMap (snd (exec quiet_env ?c one_chain)) ''C'' = Some 1 \<and>
      execution_order (heap (snd (exec quiet_env ?c one_chain)) 1) = 2 \<and>
      child_execution_order (heap (snd (exec quiet_env ?c one_chain)) 1) = 2"
    using R[where c = ?c and i = "''C''" and r = "fst (exec quiet_env ?c one_chain)"
        and st' = "snd (exec quiet_env ?c one_chain)"] s r2 acc n h
    by (simp add: call_hook_def)
  have T: "runMap (snd (exec quiet_env ?t one_chain)) ''T'' = Some 1 \<and>
      execution_order (heap (snd (exec quiet_env ?t one_chain)) 1) = 2 \<and>
      child_execution_order (heap (snd (exec quiet_env ?t one_chain)) 1) = 2 \<and>
      fst (exec quiet_env ?t one_chain) = None"
    using R[where c = ?t and i = "''T''" and r = "fst (exec quiet_env ?t one_chain)"
        and st' = "snd (exec quiet_env ?t one_chain)"] s r2 acc n h
    by (simp add: call_hook_def)
  from L have L': "exec quiet_env ?l one_chain = (None, snd (exec quiet_env ?l one_chain))"
    by (simp add: prod_eq_iff)
  from r1 r2 r3 L L' C T show ?thesis by simp
qed

section \<open>The example states\<close>

lemma chain_with_llm_state:
  "runMap chain_with_llm = [''A'' \<mapsto> 0, ''B'' \<mapsto> 1]" "next_addr chain_with_llm = 2"
  "persist_calls chain_with_llm = []"
  "heap chain_with_llm 0 = \<lparr>uuid = ''A'', parent_uuid = None, start_time = 0, end_time = 0,
      execution_order = 1, child_execution_order = 1, serialized = ''chain'',
      session_id = 1, error = None,
      body = ChainRun ''{}'' None None
        \<lparr>child_llm_runs = [1], child_chain_runs = [], child_tool_runs = []\<rparr>\<rparr>"
  "heap chain_with_llm (Suc 0) = \<lparr>uuid = ''B'', parent_uuid = Some ''A'', start_time = 1, end_time = 0,
      execution_order = 2, child_execution_order = 2, serialized = ''llm'',
      session_id = 1, error = None, body = LLMRun [''hi''] None\<rparr>"
  by (simp_all add: chain_with_llm_def model_defs)

lemma llm_with_empty_id_state:
  "runMap llm_with_empty_id = [[] \<mapsto> 0]" "next_addr llm_with_empty_id = 1"
  "session llm_with_empty_id = Some \<lparr>session_ident = 1, session_start_time = 0, session_name = None\<rparr>"
  "heap llm_with_empty_id 0 = \<lparr>uuid = [], parent_uuid = None, start_time = 0, end_time = 0,
      execution_order = 1, child_execution_order = 1, serialized = ''llm'',
      session_id = 1, error = None, body = LLMRun [''hi''] None\<rparr>"
  by (simp_all add: llm_with_empty_id_def model_defs)

lemma wf_one_chain: "wf_tracer one_chain"
  unfolding one_chain_def by (rule run_calls_frame(1)[OF wf_tracer_init])

lemma wf_chain_with_llm: "wf_tracer chain_with_llm"
  unfolding chain_with_llm_def by (rule run_calls_frame(1)[OF wf_tracer_init])

section \<open>Starting under an unknown or a compute parent\<close>

text \<open>
  C7, as stated, fails on a fresh tracer whose session loader raises: the session
  bootstrap is the first statement of every start handler, so its error surfaces and
  the parent is never looked up.  The start of \<open>T1\<close> under the unknown parent \<open>missing\<close>
  raises the transport error, not \<open>ParentRunNotFound\<close>.
\<close>

theorem C7_unknown_parent_counterexample:
  "runMap init ''missing'' = None \<and>
   fst (exec unreachable_env (ToolStart ''tool'' ''input'' ''T1'' (Some ''missing'') 0) init)
     = Some (External ''fetch failed'') \<and>
   fst (exec unreachable_env (ToolStart ''tool'' ''input'' ''T1'' (Some ''missing'') 0) init)
     \<noteq> Some (ParentRunNotFound ''missing'')"
  by (simp add: unreachable_env_def handleSessionResponse_def model_defs)

text \<open>
  C7 (amended).  A start call whose supplied parent id is not registered leaves the
  registry, the run objects and the persistence log exactly as they were, and
  raises: \<open>ParentRunNotFound\<close> whenever a session is already set or the default session
  can be loaded, and the loader's own error when no session is set and loading
  raises.
\<close>

theorem C7_unknown_parent:
  "start_of c = Some (i, Some p) \<and> runMap st p = None \<and> exec en c st = (r, st') \<longrightarrow>
     runMap st' = runMap st \<and> heap st' = heap st \<and> next_addr st' = next_addr st \<and>
     persist_calls st' = persist_calls st \<and>
     (session st \<noteq> None \<or> (\<exists>s. loadDefaultSession en = Inr s) \<longrightarrow>
        r = Some (ParentRunNotFound p)) \<and>
     (session st = None \<and> loadDefaultSession en = Inl e \<longrightarrow> r = Some e)"
proof (intro impI)
  assume h: "start_of c = Some (i, Some p) \<and> runMap st p = None \<and> exec en c st = (r, st')"
  then have c: "start_of c = Some (i, Some p)" and np: "runMap st p = None"
    and ex: "exec en c st = (r, st')" by blast+
  have g: "getExecutionOrder st (Some p) = Inl (ParentRunNotFound p)"
    using np by (simp add: getExecutionOrder_def lookup_def)
  obtain r0 st1 where e0: "ensureDefaultSession en st = (r0, st1)"
    by (cases "ensureDefaultSession en st")
  note f0 = ensureDefaultSession_frame[OF e0]
  from c ex show "runMap st' = runMap st \<and> heap st' = heap st \<and> next_addr st' = next_addr st \<and>
     persist_calls st' = persist_calls st \<and>
     (session st \<noteq> None \<or> (\<exists>s. loadDefaultSession en = Inr s) \<longrightarrow>
        r = Some (ParentRunNotFound p)) \<and>
     (session st = None \<and> loadDefaultSession en = Inl e \<longrightarrow> r = Some e)"
  proof (cases rule: exec_start_cases)
    case (bootstrap e')
    then show ?thesis by simp
  next
    case (unresolved e' s)
    from unresolved(4) e0 have "st' = st1" by simp
    moreover from unresolved(2) g have "e' = ParentRunNotFound p" by simp
    moreover from unresolved(1) e0 ensureDefaultSession_cases[OF e0]
    have "session st \<noteq> None \<or> (\<exists>s. loadDefaultSession en = Inr s)" by auto
    ultimately show ?thesis using f0 unresolved(3) by auto
  next
    case (rejected e' s k)
    with g show ?thesis by simp
  next
    case (registered s k)
    with g show ?thesis by simp
  qed
qed

text \<open>C7 (amended) on a fresh tracer with a working session loader.\<close>

theorem C7_unknown_parent_witness:
  "runMap init ''missing'' = None \<and>
   fst (exec quiet_env (ToolStart ''tool'' ''input'' ''T1'' (Some ''missing'') 0) init)
     = Some (ParentRunNotFound ''missing'') \<and>
   runMap (snd (exec quiet_env (ToolStart ''tool'' ''input'' ''T1'' (Some ''missing'') 0) init))
     = runMap init \<and>
   heap (snd (exec quiet_env (ToolStart ''tool'' ''input'' ''T1'' (Some ''missing'') 0) init))
     = heap init"
proof -
  let ?c = "ToolStart ''tool'' ''input'' ''T1'' (Some ''missing'') 0"
  have a: "runMap init ''missing'' = None" by (simp add: init_def)
  have b: "\<exists>s. loadDefaultSession quiet_env = Inr s" by (simp add: quiet_env_def)
  from C7_unknown_parent[where c = ?c and i = "''T1''" and p = "''missing''" and st = init
      and en = quiet_env and r = "fst (exec quiet_env ?c init)"
      and st' = "snd (exec quiet_env ?c init)"] a b
  show ?thesis by simp
qed


text \<open>
  For a non-empty parent id the guard of \<^verbatim>\<open>_startTrace\<close> rejects a compute parent, and
  the start call raises \<open>CallerNotToolOrChain\<close> without changing the state.
\<close>

lemma startTrace_rejects_llm_parent:
  "parent_uuid run = Some p \<Longrightarrow> p \<noteq> [] \<Longrightarrow> runMap st p = Some pa \<Longrightarrow>
   run_type (heap st pa) = Llm \<Longrightarrow> startTrace run st = Inl CallerNotToolOrChain"
  by (auto simp add: startTrace_def Let_def run_type_def split: run_body.splits)

lemma start_under_llm_parent:
  assumes c: "start_of c = Some (i, Some p)" and "p \<noteq> []" and "runMap st p = Some pa"
    and "run_type (heap st pa) = Llm" and "session st \<noteq> None"
  shows "exec en c st = (Some CallerNotToolOrChain, st)"
proof -
  obtain s where s: "session st = Some s" using assms(5) by auto
  then have e0: "ensureDefaultSession en st = (Inr s, st)"
    by (simp add: ensureDefaultSession_def)
  have g: "getExecutionOrder st (Some p) = Inr (child_execution_order (heap st pa) + 1)"
    using assms(3) by (simp add: getExecutionOrder_def lookup_def)
  have "startTrace (new_run en c (child_execution_order (heap st pa) + 1) s) st
          = Inl CallerNotToolOrChain"
    using new_run_fields(2)[OF c] assms(2,3,4) by (rule startTrace_rejects_llm_parent)
  with e0 g show ?thesis by (simp add: exec_start[OF c])
qed

text \<open>
  C8 at the parent id \<^verbatim>\<open>""\<close>.  \<^verbatim>\<open>_getExecutionOrder\<close> tests \<^verbatim>\<open>parentRunId === undefined\<close>
  and resolves the empty id to the registered compute run; \<^verbatim>\<open>_startTrace\<close> tests
  \<^verbatim>\<open>if (run.parent_uuid)\<close>, which is false for the empty string, so the guard against
  compute parents is skipped: the call returns without raising and the new run is
  registered, with the order resolved from the compute run.
\<close>

theorem C8_empty_parent_id_not_rejected:
  "map_option run_type (lookup llm_with_empty_id []) = Some Llm \<and>
   fst (exec quiet_env (LLMStart ''llm'' [''hi''] ''child'' (Some []) 1) llm_with_empty_id) = None \<and>
   runMap (snd (exec quiet_env (LLMStart ''llm'' [''hi''] ''child'' (Some []) 1) llm_with_empty_id))
     ''child'' = Some 1 \<and>
   parent_uuid (heap (snd (exec quiet_env (LLMStart ''llm'' [''hi''] ''child'' (Some []) 1)
      llm_with_empty_id)) 1) = Some [] \<and>
   execution_order (heap (snd (exec quiet_env (LLMStart ''llm'' [''hi''] ''child'' (Some []) 1)
      llm_with_empty_id)) 1) = 2"
  by (simp add: llm_with_empty_id_state model_defs)



section \<open>Closing a run\<close>

lemma endTrace_root:
  assumes "\<not> truthy (parent_uuid (heap st a))"
  shows "endTrace en a st =
     (case persistRun en (heap st) a of
        Some e \<Rightarrow> (Some e, st\<lparr>persist_calls := persist_calls st @ [a]\<rparr>)
      | None \<Rightarrow> (None, st\<lparr>persist_calls := persist_calls st @ [a],
                          runMap := (runMap st)(uuid (heap st a) := None)\<rparr>))"
  using assms by (simp add: endTrace_def Let_def split: option.splits)

lemma endTrace_parent_missing:
  assumes "parent_uuid (heap st a) = Some p" "p \<noteq> []" "runMap st p = None"
  shows "endTrace en a st = (Some (ParentRunNotFound p), st)"
  using assms by (simp add: endTrace_def Let_def)

lemma endTrace_parent:
  assumes "parent_uuid (heap st a) = Some p" "p \<noteq> []" "runMap st p = Some pa"
  shows "endTrace en a st =
     (None, st\<lparr>heap := (heap st)(pa := (heap st pa)
                  \<lparr>child_execution_order :=
                     max (child_execution_order (heap st pa)) (child_execution_order (heap st a))\<rparr>),
               runMap := (runMap st)(uuid (heap st a) := None)\<rparr>)"
  using assms by (simp add: endTrace_def Let_def)

text \<open>An end or error call that finds its run and whose hook returns performs the close.\<close>

lemma exec_close_reaches_endTrace:
  assumes "closes c = Some i" "runMap st i = Some a" "run_type (heap st a) = close_kind c"
    "call_hook (end_hook en c) (finalize c (heap st a)) = None"
  shows "exec en c st = endTrace en a (st\<lparr>heap := (heap st)(a := finalize c (heap st a))\<rparr>)"
  using assms by (simp add: exec_close)

text \<open>
  C2, as stated, fails in two ways.  First, a root run whose submission raises is
  handed to \<^verbatim>\<open>persistRun\<close> and is still registered afterwards: \<^verbatim>\<open>runMap.delete\<close> comes
  after the \<^verbatim>\<open>await\<close> and is skipped.  Second, \<^verbatim>\<open>_endTrace\<close> tests \<^verbatim>\<open>!run.parent_uuid\<close>,
  which holds for the empty string: the run \<open>child\<close>, started under the registered run
  \<^verbatim>\<open>""\<close> and numbered from it, is closed as if it had no parent; it is handed to
  \<^verbatim>\<open>persistRun\<close> and its parent's child-execution-order stays 1, below the child's 2.
\<close>

theorem C2_close_counterexample:
  "fst (exec rejecting_env (ToolEnd ''out'' ''T'' 5) one_tool)
     = Some (FailedToPersistRun 500 ''Internal Server Error'' []) \<and>
   persist_calls (snd (exec rejecting_env (ToolEnd ''out'' ''T'' 5) one_tool)) = [0] \<and>
   runMap (snd (exec rejecting_env (ToolEnd ''out'' ''T'' 5) one_tool)) ''T'' = Some 0 \<and>
   runMap child_of_empty_id [] = Some 0 \<and> runMap child_of_empty_id ''child'' = Some 1 \<and>
   parent_uuid (heap child_of_empty_id 1) = Some [] \<and>
   child_execution_order (heap child_of_empty_id 0) = 1 \<and>
   child_execution_order (heap child_of_empty_id 1) = 2 \<and>
   fst (exec quiet_env (LLMEnd ''result'' ''child'' 2) child_of_empty_id) = None \<and>
   persist_calls (snd (exec quiet_env (LLMEnd ''result'' ''child'' 2) child_of_empty_id)) = [1] \<and>
   child_execution_order
     (heap (snd (exec quiet_env (LLMEnd ''result'' ''child'' 2) child_of_empty_id)) 0) = 1"
  by (simp add: one_tool_def child_of_empty_id_def rejecting_env_def model_defs)

text \<open>
  C2 (amended).  Take an end or error call that finds its run (registered, of the
  right kind) and whose hook returns, so that the close is performed.  If the run's
  parent id is a non-empty string and the parent is registered, the call returns,
  the parent's child-execution-order becomes the maximum of its old value and the
  closing run's child-execution-order, nothing is submitted to persistence, and the
  run is removed from the registry.  If that parent is not registered the call raises
  \<open>ParentRunNotFound\<close> and the registry is unchanged.  If the run has no parent id it is
  submitted to \<^verbatim>\<open>persistRun\<close> (with no child-execution-order changed) and the outcome
  of the call is the outcome of \<^verbatim>\<open>persistRun\<close>: when that returns the run is removed
  from the registry, when it raises the registry is unchanged.  Nothing is said about
  a run whose parent id is the empty string.
\<close>

theorem C2_close:
  "closes c = Some i \<and> wf_tracer st \<and> runMap st i = Some a \<and>
   run_type (heap st a) = close_kind c \<and>
   call_hook (end_hook en c) (finalize c (heap st a)) = None \<and>
   exec en c st = (r, st') \<longrightarrow>
     (parent_uuid (heap st a) = Some p \<and> p \<noteq> [] \<and> runMap st p = Some pa \<longrightarrow>
        r = None \<and>
        child_execution_order (heap st' pa) =
          max (child_execution_order (heap st pa)) (child_execution_order (heap st a)) \<and>
        runMap st' = (runMap st)(i := None) \<and> persist_calls st' = persist_calls st) \<and>
     (parent_uuid (heap st a) = Some p \<and> p \<noteq> [] \<and> runMap st p = None \<longrightarrow>
        r = Some (ParentRunNotFound p) \<and> runMap st' = runMap st \<and>
        persist_calls st' = persist_calls st) \<and>
     (parent_uuid (heap st a) = None \<longrightarrow>
        persist_calls st' = persist_calls st @ [a] \<and> r = persistRun en (heap st') a \<and>
        (r = None \<longrightarrow> runMap st' = (runMap st)(i := None)) \<and>
        (r \<noteq> None \<longrightarrow> runMap st' = runMap st) \<and>
        (\<forall>b. child_execution_order (heap st' b) = child_execution_order (heap st b)))"
proof (intro impI)
  assume h: "closes c = Some i \<and> wf_tracer st \<and> runMap st i = Some a \<and>
   run_type (heap st a) = close_kind c \<and>
   call_hook (end_hook en c) (finalize c (heap st a)) = None \<and>
   exec en c st = (r, st')"
  let ?st1 = "st\<lparr>heap := (heap st)(a := finalize c (heap st a))\<rparr>"
  from h have et: "endTrace en a ?st1 = (r, st')"
    using exec_close_reaches_endTrace[of c i st a en] by simp
  from h have u: "uuid (heap st a) = i" by (simp add: wf_tracer_def)
  have pu: "parent_uuid (heap ?st1 a) = parent_uuid (heap st a)"
    and uu: "uuid (heap ?st1 a) = i"
    and ce: "\<And>b. child_execution_order (heap ?st1 b) = child_execution_order (heap st b)"
    using u by (simp_all add: finalize_fields)
  have 1: "r = None \<and>
        child_execution_order (heap st' pa) =
          max (child_execution_order (heap st pa)) (child_execution_order (heap st a)) \<and>
        runMap st' = (runMap st)(i := None) \<and> persist_calls st' = persist_calls st"
    if "parent_uuid (heap st a) = Some p \<and> p \<noteq> [] \<and> runMap st p = Some pa"
  proof -
    from that pu have "parent_uuid (heap ?st1 a) = Some p" "p \<noteq> []" "runMap ?st1 p = Some pa"
      by simp_all
    from endTrace_parent[OF this, of en] et uu ce[of pa] ce[of a]
    show ?thesis by auto
  qed
  have 2: "r = Some (ParentRunNotFound p) \<and> runMap st' = runMap st \<and>
        persist_calls st' = persist_calls st"
    if "parent_uuid (heap st a) = Some p \<and> p \<noteq> [] \<and> runMap st p = None"
  proof -
    from that pu have "parent_uuid (heap ?st1 a) = Some p" "p \<noteq> []" "runMap ?st1 p = None"
      by simp_all
    from endTrace_parent_missing[OF this, of en] et show ?thesis by auto
  qed
  have 3: "persist_calls st' = persist_calls st @ [a] \<and> r = persistRun en (heap st') a \<and>
        (r = None \<longrightarrow> runMap st' = (runMap st)(i := None)) \<and>
        (r \<noteq> None \<longrightarrow> runMap st' = runMap st) \<and>
        (\<forall>b. child_execution_order (heap st' b) = child_execution_order (heap st b))"
    if "parent_uuid (heap st a) = None"
  proof -
    from that pu have "\<not> truthy (parent_uuid (heap ?st1 a))" by simp
    from endTrace_root[OF this, of en] et uu ce
    show ?thesis by (cases "persistRun en (heap ?st1) a") auto
  qed
  from 1 2 3 show "(parent_uuid (heap st a) = Some p \<and> p \<noteq> [] \<and> runMap st p = Some pa \<longrightarrow>
        r = None \<and>
        child_execution_order (heap st' pa) =
          max (child_execution_order (heap st pa)) (child_execution_order (heap st a)) \<and>
        runMap st' = (runMap st)(i := None) \<and> persist_calls st' = persist_calls st) \<and>
     (parent_uuid (heap st a) = Some p \<and> p \<noteq> [] \<and> runMap st p = None \<longrightarrow>
        r = Some (ParentRunNotFound p) \<and> runMap st' = runMap st \<and>
        persist_calls st' = persist_calls st) \<and>
     (parent_uuid (heap st a) = None \<longrightarrow>
        persist_calls st' = persist_calls st @ [a] \<and> r = persistRun en (heap st') a \<and>
        (r = None \<longrightarrow> runMap st' = (runMap st)(i := None)) \<and>
        (r \<noteq> None \<longrightarrow> runMap st' = runMap st) \<and>
        (\<forall>b. child_execution_order (heap st' b) = child_execution_order (heap st b)))"
    by blast
qed

text \<open>
  C2 (amended) on the end of the child \<open>B\<close> of \<open>A\<close>, on the end of the root \<open>A\<close>, and
  on the end of the root \<open>A\<close> when the submission raises.
\<close>

theorem C2_close_witness:
  "fst (exec quiet_env (LLMEnd ''result'' ''B'' 9) chain_with_llm) = None \<and>
   child_execution_order (heap (snd (exec quiet_env (LLMEnd ''result'' ''B'' 9) chain_with_llm)) 0) = 2 \<and>
   runMap (snd (exec quiet_env (LLMEnd ''result'' ''B'' 9) chain_with_llm)) ''B'' = None \<and>
   persist_calls (snd (exec quiet_env (LLMEnd ''result'' ''B'' 9) chain_with_llm)) = [] \<and>
   fst (exec quiet_env (ChainEnd ''out'' ''A'' 9) one_chain) = None \<and>
   persist_calls (snd (exec quiet_env (ChainEnd ''out'' ''A'' 9) one_chain)) = [0] \<and>
   runMap (snd (exec quiet_env (ChainEnd ''out'' ''A'' 9) one_chain)) ''A'' = None \<and>
   fst (exec rejecting_env (ChainEnd ''out'' ''A'' 9) one_chain)
     = Some (FailedToPersistRun 500 ''Internal Server Error'' []) \<and>
   persist_calls (snd (exec rejecting_env (ChainEnd ''out'' ''A'' 9) one_chain)) = [0] \<and>
   runMap (snd (exec rejecting_env (ChainEnd ''out'' ''A'' 9) one_chain)) = runMap one_chain"
proof -
  let ?c = "LLMEnd ''result'' ''B'' 9" and ?d = "ChainEnd ''out'' ''A'' 9"
  have 1: "closes ?c = Some ''B''" "runMap chain_with_llm ''B'' = Some 1"
    "run_type (heap chain_with_llm 1) = close_kind ?c"
    "call_hook (end_hook quiet_env ?c) (finalize ?c (heap chain_with_llm 1)) = None"
    "parent_uuid (heap chain_with_llm 1) = Some ''A''" "runMap chain_with_llm ''A'' = Some 0"
    "child_execution_order (heap chain_with_llm 0) = 1"
    "child_execution_order (heap chain_with_llm 1) = 2"
    "persist_calls chain_with_llm = []"
    by (simp_all add: chain_with_llm_state run_type_def call_hook_def quiet_env_def)
  have 2: "closes ?d = Some ''A''" "runMap one_chain ''A'' = Some 0"
    "run_type (heap one_chain 0) = close_kind ?d"
    "call_hook (end_hook quiet_env ?d) (finalize ?d (heap one_chain 0)) = None"
    "parent_uuid (heap one_chain 0) = None" "persist_calls one_chain = []"
    "\<And>h. persistRun quiet_env h 0 = None"
    by (simp_all add: one_chain_state run_type_def call_hook_def quiet_env_def)
  have 3: "call_hook (end_hook rejecting_env ?d) (finalize ?d (heap one_chain 0)) = None"
    "\<And>h. persistRun rejecting_env h 0 = Some (FailedToPersistRun 500 ''Internal Server Error'' [])"
    by (simp_all add: one_chain_state call_hook_def rejecting_env_def quiet_env_def)
  from C2_close[where c = ?c and i = "''B''" and st = chain_with_llm and a = 1 and en = quiet_env
      and r = "fst (exec quiet_env ?c chain_with_llm)"
      and st' = "snd (exec quiet_env ?c chain_with_llm)" and p = "''A''" and pa = 0]
    1 wf_chain_with_llm
  have A: "fst (exec quiet_env ?c chain_with_llm) = None \<and>
     child_execution_order (heap (snd (exec quiet_env ?c chain_with_llm)) 0) = 2 \<and>
     runMap (snd (exec quiet_env ?c chain_with_llm)) ''B'' = None \<and>
     persist_calls (snd (exec quiet_env ?c chain_with_llm)) = []"
    by simp
  from C2_close[where c = ?d and i = "''A''" and st = one_chain and a = 0 and en = quiet_env
      and r = "fst (exec quiet_env ?d one_chain)"
      and st' = "snd (exec quiet_env ?d one_chain)" and p = "''A''" and pa = 0]
    2 wf_one_chain
  have B: "fst (exec quiet_env ?d one_chain) = None \<and>
     persist_calls (snd (exec quiet_env ?d one_chain)) = [0] \<and>
     runMap (snd (exec quiet_env ?d one_chain)) ''A'' = None"
    by simp
  from C2_close[where c = ?d and i = "''A''" and st = one_chain and a = 0 and en = rejecting_env
      and r = "fst (exec rejecting_env ?d one_chain)"
      and st' = "snd (exec rejecting_env ?d one_chain)" and p = "''A''" and pa = 0]
    2(1,2,3,5,6) 3 wf_one_chain
  have C: "fst (exec rejecting_env ?d one_chain)
       = Some (FailedToPersistRun 500 ''Internal Server Error'' []) \<and>
     persist_calls (snd (exec rejecting_env ?d one_chain)) = [0] \<and>
     runMap (snd (exec rejecting_env ?d one_chain)) = runMap one_chain"
    by simp
  from A B C show ?thesis by simp
qed

text \<open>
  C5, as stated, fails: when \<^verbatim>\<open>persistRun\<close> raises for a root run, the statement
  \<^verbatim>\<open>this.runMap.delete(run.uuid)\<close> after the \<^verbatim>\<open>await\<close> is not reached, and the root is
  still registered when the error reaches the caller.
\<close>

theorem C5_close_removal_counterexample:
  "fst (exec rejecting_env (ChainEnd ''out'' ''A'' 5) one_chain)
     = Some (FailedToPersistRun 500 ''Internal Server Error'' []) \<and>
   runMap (snd (exec rejecting_env (ChainEnd ''out'' ''A'' 5) one_chain)) ''A'' = Some 0"
  by (simp add: one_chain_state rejecting_env_def model_defs)

text \<open>
  C5 (amended).  For an end or error call that performs the close, the run is removed
  from the registry exactly when the call returns without raising; when the call
  raises, the registry is unchanged.  In particular, when \<^verbatim>\<open>persistRun\<close> raises for a
  root run, that error reaches the caller and the root is still registered.
\<close>

theorem C5_close_removal:
  "closes c = Some i \<and> wf_tracer st \<and> runMap st i = Some a \<and>
   run_type (heap st a) = close_kind c \<and>
   call_hook (end_hook en c) (finalize c (heap st a)) = None \<and>
   exec en c st = (r, st') \<longrightarrow>
     (r = None \<longrightarrow> runMap st' = (runMap st)(i := None)) \<and>
     (r \<noteq> None \<longrightarrow> runMap st' = runMap st) \<and>
     (\<not> truthy (parent_uuid (heap st a)) \<and>
      persistRun en ((heap st)(a := finalize c (heap st a))) a = Some e \<longrightarrow>
        r = Some e \<and> runMap st' i = Some a)"
proof (intro impI)
  assume h: "closes c = Some i \<and> wf_tracer st \<and> runMap st i = Some a \<and>
   run_type (heap st a) = close_kind c \<and>
   call_hook (end_hook en c) (finalize c (heap st a)) = None \<and>
   exec en c st = (r, st')"
  let ?st1 = "st\<lparr>heap := (heap st)(a := finalize c (heap st a))\<rparr>"
  from h have et: "endTrace en a ?st1 = (r, st')"
    using exec_close_reaches_endTrace[of c i st a en] by simp
  from h have u: "uuid (heap ?st1 a) = i" by (simp add: wf_tracer_def finalize_fields)
  note f = endTrace_frame[OF et]
  have 1: "r = None \<longrightarrow> runMap st' = (runMap st)(i := None)" using f(4) u by simp
  have 2: "r \<noteq> None \<longrightarrow> runMap st' = runMap st" using f(5) by simp
  have 3: "r = Some e \<and> runMap st' i = Some a"
    if "\<not> truthy (parent_uuid (heap st a)) \<and>
      persistRun en ((heap st)(a := finalize c (heap st a))) a = Some e"
  proof -
    from that have "\<not> truthy (parent_uuid (heap ?st1 a))" by (simp add: finalize_fields)
    from endTrace_root[OF this, of en] et that h show ?thesis by simp
  qed
  from 1 2 3 show "(r = None \<longrightarrow> runMap st' = (runMap st)(i := None)) \<and>
     (r \<noteq> None \<longrightarrow> runMap st' = runMap st) \<and>
     (\<not> truthy (parent_uuid (heap st a)) \<and>
      persistRun en ((heap st)(a := finalize c (heap st a))) a = Some e \<longrightarrow>
        r = Some e \<and> runMap st' i = Some a)"
    by blast
qed

text \<open>C5 (amended) on a failing submission of the root \<open>A\<close>.\<close>

theorem C5_close_removal_witness:
  "fst (exec rejecting_env (ChainError ''boom'' ''A'' 7) one_chain)
     = Some (FailedToPersistRun 500 ''Internal Server Error'' []) \<and>
   runMap (snd (exec rejecting_env (ChainError ''boom'' ''A'' 7) one_chain)) = runMap one_chain \<and>
   runMap (snd (exec rejecting_env (ChainError ''boom'' ''A'' 7) one_chain)) ''A'' = Some 0"
proof -
  let ?d = "ChainError ''boom'' ''A'' 7"
  have 2: "closes ?d = Some ''A''" "runMap one_chain ''A'' = Some 0"
    "run_type (heap one_chain 0) = close_kind ?d"
    "call_hook (end_hook rejecting_env ?d) (finalize ?d (heap one_chain 0)) = None"
    "\<not> truthy (parent_uuid (heap one_chain 0))"
    "\<And>h. persistRun rejecting_env h 0 = Some (FailedToPersistRun 500 ''Internal Server Error'' [])"
    by (simp_all add: one_chain_state run_type_def call_hook_def rejecting_env_def quiet_env_def)
  from C5_close_removal[where c = ?d and i = "''A''" and st = one_chain and a = 0
      and en = rejecting_env and r = "fst (exec rejecting_env ?d one_chain)"
      and st' = "snd (exec rejecting_env ?d one_chain)"
      and e = "FailedToPersistRun 500 ''Internal Server Error'' []"]
    2 wf_one_chain
  show ?thesis by simp
qed

section \<open>A raising hook\<close>

lemma finalize_records:
  assumes "closes c = Some i" "run_type r = close_kind c"
  shows "end_time (finalize c r) = close_time c" "recorded c (finalize c r)"
  using assms by (cases c; cases "body r"; simp add: run_type_def)+

text \<open>
  C10.  When an end or error call finds its run and its hook raises, the call raises
  the hook's error and the close is not performed: the registry is unchanged (the run
  is still registered), nothing is submitted to persistence, no child-execution-order
  changes (so the parent's is not updated), and the only object that changed is the
  run itself, which carries the end timestamp and the success payload or error
  message of the call.
\<close>

theorem C10_hook_failure:
  "closes c = Some i \<and> runMap st i = Some a \<and> run_type (heap st a) = close_kind c \<and>
   call_hook (end_hook en c) (finalize c (heap st a)) = Some e \<and>
   exec en c st = (r, st') \<longrightarrow>
     r = Some e \<and> runMap st' = runMap st \<and> runMap st' i = Some a \<and>
     persist_calls st' = persist_calls st \<and>
     end_time (heap st' a) = close_time c \<and> recorded c (heap st' a) \<and>
     (\<forall>b. child_execution_order (heap st' b) = child_execution_order (heap st b)) \<and>
     (\<forall>b. b \<noteq> a \<longrightarrow> heap st' b = heap st b)"
proof (intro impI)
  assume h: "closes c = Some i \<and> runMap st i = Some a \<and> run_type (heap st a) = close_kind c \<and>
   call_hook (end_hook en c) (finalize c (heap st a)) = Some e \<and>
   exec en c st = (r, st')"
  then have "(r, st') = (Some e, st\<lparr>heap := (heap st)(a := finalize c (heap st a))\<rparr>)"
    using exec_close[of c i en st] by simp
  then have r: "r = Some e" and st': "st' = st\<lparr>heap := (heap st)(a := finalize c (heap st a))\<rparr>"
    by simp_all
  from h finalize_records[of c i "heap st a"]
  have "end_time (finalize c (heap st a)) = close_time c" "recorded c (finalize c (heap st a))"
    by simp_all
  with r st' h show "r = Some e \<and> runMap st' = runMap st \<and> runMap st' i = Some a \<and>
     persist_calls st' = persist_calls st \<and>
     end_time (heap st' a) = close_time c \<and> recorded c (heap st' a) \<and>
     (\<forall>b. child_execution_order (heap st' b) = child_execution_order (heap st b)) \<and>
     (\<forall>b. b \<noteq> a \<longrightarrow> heap st' b = heap st b)"
    by (simp add: finalize_fields)
qed

text \<open>C10 on the end of \<open>B\<close> with a raising \<^verbatim>\<open>onLLMEnd\<close> hook.\<close>

theorem C10_hook_failure_witness:
  "fst (exec noisy_env (LLMEnd ''result'' ''B'' 9) chain_with_llm) = Some (External ''hook failed'') \<and>
   runMap (snd (exec noisy_env (LLMEnd ''result'' ''B'' 9) chain_with_llm)) ''B'' = Some 1 \<and>
   persist_calls (snd (exec noisy_env (LLMEnd ''result'' ''B'' 9) chain_with_llm)) = [] \<and>
   end_time (heap (snd (exec noisy_env (LLMEnd ''result'' ''B'' 9) chain_with_llm)) 1) = 9 \<and>
   child_execution_order (heap (snd (exec noisy_env (LLMEnd ''result'' ''B'' 9) chain_with_llm)) 0) = 1"
proof -
  let ?c = "LLMEnd ''result'' ''B'' 9"
  have 1: "closes ?c = Some ''B''" "runMap chain_with_llm ''B'' = Some 1"
    "run_type (heap chain_with_llm 1) = close_kind ?c"
    "call_hook (end_hook noisy_env ?c) (finalize ?c (heap chain_with_llm 1))
       = Some (External ''hook failed'')"
    "child_execution_order (heap chain_with_llm 0) = 1"
    "persist_calls chain_with_llm = []" "close_time ?c = 9"
    by (simp_all add: chain_with_llm_state run_type_def call_hook_def noisy_env_def quiet_env_def)
  from C10_hook_failure[where c = ?c and i = "''B''" and st = chain_with_llm and a = 1
      and en = noisy_env and r = "fst (exec noisy_env ?c chain_with_llm)"
      and st' = "snd (exec noisy_env ?c chain_with_llm)" and e = "External ''hook failed''"]
    1
  show ?thesis by simp
qed



section \<open>The adapter: caching of tenant and session\<close>

lemma ensureTenantId_cached:
  "tenantId ad = Some t \<Longrightarrow> t \<noteq> [] \<Longrightarrow> ensureTenantId en ad = (Inr t, ad)"
  by (simp add: ensureTenantId_def)

lemma ensureSession_cached:
  "sessionV2 ad = Some s \<Longrightarrow> ensureSession en ad = (Inr s, ad)"
  by (simp add: ensureSession_def)

lemma keeps_refl: "keeps ad ad"
  by (simp add: keeps_def)

lemma keeps_trans: "keeps ad ad1 \<Longrightarrow> keeps ad1 ad2 \<Longrightarrow> keeps ad ad2"
  by (simp add: keeps_def)

lemma ensureTenantId_result:
  assumes "ensureTenantId en ad = (r, ad')"
  shows "keeps ad ad'" and "r = Inr t \<Longrightarrow> tenantId ad' = Some t"
    and "sessionV2 ad' = sessionV2 ad"
    and "requests ad' = requests ad \<or> requests ad' = requests ad @ [Get (endpoint en @ ''/tenants'')]"
  using assms
  by (cases "tenantId ad";
      auto simp add: ensureTenantId_def keeps_def Let_def
        split: sum.splits if_splits option.splits list.splits)+

lemma ensureTenantId_no_tenants:
  assumes "\<not> truthy (tenantId ad)" "fetch_tenants en (requests ad) = Inr response" "ok response"
    "json response = None \<or> json response = Some []"
  shows "ensureTenantId en ad =
           (Inl (NoTenantsFound (endpoint en @ ''/tenants'')),
            ad\<lparr>requests := requests ad @ [Get (endpoint en @ ''/tenants'')]\<rparr>)"
  using assms by (auto simp add: ensureTenantId_def Let_def)

lemma ensureSession_result:
  assumes "ensureSession en ad = (r, ad')"
  shows "keeps ad ad'" and "r = Inr s \<Longrightarrow> sessionV2 ad' = Some s"
proof -
  have "keeps ad ad' \<and> (r = Inr s \<longrightarrow> sessionV2 ad' = Some s)"
  proof (cases "sessionV2 ad")
    case (Some s0)
    with assms show ?thesis by (auto simp add: ensureSession_def keeps_refl)
  next
    case None
    obtain r1 ad1 where t: "ensureTenantId en ad = (r1, ad1)" by (cases "ensureTenantId en ad")
    note k = ensureTenantId_result[OF t]
    show ?thesis
    proof (cases r1)
      case (Inl e)
      with assms None t k show ?thesis by (auto simp add: ensureSession_def)
    next
      case (Inr tid)
      from k(1) have k1: "\<And>t. tenantId ad = Some t \<and> t \<noteq> [] \<Longrightarrow> tenantId ad1 = Some t"
        and k2: "exampleId ad1 = exampleId ad"
        by (simp_all add: keeps_def)
      from assms None t Inr k(3) k1 k2 show ?thesis
        by (auto simp add: ensureSession_def Let_def keeps_def split: sum.splits if_splits)
    qed
  qed
  then show "keeps ad ad'" and "r = Inr s \<Longrightarrow> sessionV2 ad' = Some s" by blast+
qed

lemma ensureSession_no_tenants:
  assumes "sessionV2 ad = None" "\<not> truthy (tenantId ad)"
    "fetch_tenants en (requests ad) = Inr response" "ok response"
    "json response = None \<or> json response = Some []"
  shows "ensureSession en ad =
           (Inl (NoTenantsFound (endpoint en @ ''/tenants'')),
            ad\<lparr>requests := requests ad @ [Get (endpoint en @ ''/tenants'')]\<rparr>)"
  using assms(1) ensureTenantId_no_tenants[OF assms(2-5)]
  by (simp add: ensureSession_def)

lemma convertToCreate_fails_with_session:
  assumes "ensureSession en ad = (Inl e, ad1)"
  shows "convertToCreate en run ex ad = (Inl e, ad1)"
  using assms by (cases run) simp

lemma persistRunV2_fails_with_session:
  assumes "ensureSession en ad = (Inl e, ad1)"
  shows "persistRunV2 en run ad = (Some e, ad1)"
  using convertToCreate_fails_with_session[OF assms]
  by (simp add: persistRunV2_def)

section \<open>The adapter: conversion\<close>

lemma promise_all_Inr: "promise_all rs = Inr cs \<Longrightarrow> rs = map Inr cs"
proof (induction rs arbitrary: cs)
  case Nil
  then show ?case by simp
next
  case (Cons r rs)
  then show ?case by (cases r) (auto split: sum.splits)
qed

lemma promise_all_map_Inr: "promise_all (map Inr cs) = Inr cs"
  by (induction cs) simp_all

lemma convert_keeps_aux:
  "\<forall>r ad'. convertToCreate en run ex ad = (r, ad') \<longrightarrow> keeps ad ad'"
  "\<forall>res ad'. convertChildren en rs ad = (res, ad') \<longrightarrow> keeps ad ad'"
proof (induction en run ex ad and en rs ad rule: convertToCreate_convertChildren.induct)
  case (1 en i n st et rt ex' eo ser err inp out children example_id ad)
  show ?case
  proof (intro allI impI)
    fix r ad' assume h: "convertToCreate en (RunV2 i n st et rt ex' eo ser err inp out children) example_id ad = (r, ad')"
    obtain r1 ad1 where e: "ensureSession en ad = (r1, ad1)" by (cases "ensureSession en ad")
    note k = ensureSession_result(1)[OF e]
    show "keeps ad ad'"
    proof (cases r1)
      case (Inl e')
      with h e k show ?thesis by simp
    next
      case (Inr s)
      obtain res ad2 where c: "convertChildren en children ad1 = (res, ad2)"
        by (cases "convertChildren en children ad1")
      from 1[OF e[symmetric] Inr refl] c have "keeps ad1 ad2" by simp
      moreover from h e Inr c have "ad' = ad2" by (simp add: Let_def split: sum.splits)
      ultimately show ?thesis using k keeps_trans by blast
    qed
  qed
next
  case (2 en ad)
  then show ?case by (simp add: keeps_refl)
next
  case (3 en child_run rest ad)
  show ?case
  proof (intro allI impI)
    fix res ad' assume h: "convertChildren en (child_run # rest) ad = (res, ad')"
    obtain r1 ad1 where a: "convertToCreate en child_run None ad = (r1, ad1)"
      by (cases "convertToCreate en child_run None ad")
    obtain rs ad2 where b: "convertChildren en rest ad1 = (rs, ad2)"
      by (cases "convertChildren en rest ad1")
    from 3(1) a have "keeps ad ad1" by simp
    moreover from 3(2)[OF a[symmetric]] b have "keeps ad1 ad2" by simp
    moreover from h a b have "ad' = ad2" by simp
    ultimately show "keeps ad ad'" using keeps_trans by blast
  qed
qed

lemma convert_cached_aux:
  "\<forall>s. sessionV2 ad = Some s \<longrightarrow> (\<exists>rc. convertToCreate en run ex ad = (Inr rc, ad))"
  "\<forall>s. sessionV2 ad = Some s \<longrightarrow> (\<exists>cs. convertChildren en rs ad = (map Inr cs, ad))"
proof (induction en run ex ad and en rs ad rule: convertToCreate_convertChildren.induct)
  case (1 en i n st et rt ex' eo ser err inp out children example_id ad)
  show ?case
  proof (intro allI impI)
    fix s assume s: "sessionV2 ad = Some s"
    then have e: "ensureSession en ad = (Inr s, ad)" by (rule ensureSession_cached)
    from 1[OF e[symmetric] refl refl] s obtain cs where
      "convertChildren en children ad = (map Inr cs, ad)" by blast
    with e show "\<exists>rc. convertToCreate en (RunV2 i n st et rt ex' eo ser err inp out children)
                        example_id ad = (Inr rc, ad)"
      by (simp add: promise_all_map_Inr)
  qed
next
  case (2 en ad)
  then show ?case by simp
next
  case (3 en child_run rest ad)
  show ?case
  proof (intro allI impI)
    fix s assume s: "sessionV2 ad = Some s"
    with 3(1) obtain rc where a: "convertToCreate en child_run None ad = (Inr rc, ad)" by blast
    from 3(2)[OF a[symmetric]] s obtain cs where b: "convertChildren en rest ad = (map Inr cs, ad)"
      by blast
    from a b have "convertChildren en (child_run # rest) ad = (map Inr (rc # cs), ad)" by simp
    then show "\<exists>cs. convertChildren en (child_run # rest) ad = (map Inr cs, ad)" by blast
  qed
qed

lemma convert_example_id_aux:
  "\<forall>rc ad'. convertToCreate en run ex ad = (Inr rc, ad') \<longrightarrow>
      reference_example_id rc = ex \<and> (\<forall>d\<in>set (descendants rc). reference_example_id d = None)"
  "\<forall>res ad'. convertChildren en rs ad = (res, ad') \<longrightarrow>
      (\<forall>rc. Inr rc \<in> set res \<longrightarrow>
         reference_example_id rc = None \<and>
         (\<forall>d\<in>set (descendants rc). reference_example_id d = None))"
proof (induction en run ex ad and en rs ad rule: convertToCreate_convertChildren.induct)
  case (1 en i n st et rt ex' eo ser err inp out children example_id ad)
  show ?case
  proof (intro allI impI)
    fix rc ad'
    assume h: "convertToCreate en (RunV2 i n st et rt ex' eo ser err inp out children) example_id ad
                 = (Inr rc, ad')"
    obtain r1 ad1 where e: "ensureSession en ad = (r1, ad1)" by (cases "ensureSession en ad")
    from h e obtain s where r1: "r1 = Inr s" by (cases r1) auto
    obtain res ad2 where c: "convertChildren en children ad1 = (res, ad2)"
      by (cases "convertChildren en children ad1")
    from h e r1 c obtain cs where p: "promise_all res = Inr cs"
      by (cases "promise_all res") (auto simp add: Let_def)
    from h e r1 c p have rc: "reference_example_id rc = example_id" "child_runs rc = cs"
      by (auto simp add: Let_def)
    from promise_all_Inr[OF p] have res: "res = map Inr cs" .
    from 1[OF e[symmetric] r1 refl] c res
    have ih: "\<forall>x\<in>set cs. reference_example_id x = None \<and>
                (\<forall>d\<in>set (descendants x). reference_example_id d = None)"
      by auto
    have "set (descendants rc) = (\<Union>x\<in>set cs. insert x (set (descendants x)))"
      using rc(2) by (cases rc) auto
    with ih rc(1) show "reference_example_id rc = example_id \<and>
        (\<forall>d\<in>set (descendants rc). reference_example_id d = None)"
      by auto
  qed
next
  case (2 en ad)
  then show ?case by simp
next
  case (3 en child_run rest ad)
  show ?case
  proof (intro allI impI)
    fix res ad' rc
    assume h: "convertChildren en (child_run # rest) ad = (res, ad')" and m: "Inr rc \<in> set res"
    obtain r1 ad1 where a: "convertToCreate en child_run None ad = (r1, ad1)"
      by (cases "convertToCreate en child_run None ad")
    obtain rs ad2 where b: "convertChildren en rest ad1 = (rs, ad2)"
      by (cases "convertChildren en rest ad1")
    from h a b have "res = r1 # rs" by simp
    with m consider "r1 = Inr rc" | "Inr rc \<in> set rs" by auto
    then show "reference_example_id rc = None \<and>
        (\<forall>d\<in>set (descendants rc). reference_example_id d = None)"
    proof cases
      case 1
      with 3(1) a show ?thesis by simp
    next
      case 2
      with 3(2)[OF a[symmetric]] b show ?thesis by simp
    qed
  qed
qed

lemma persistRunV2_posts:
  assumes "convertToCreate en run (exampleId ad) ad = (Inr rc, ad1)"
    and "persistRunV2 en run ad = (r, ad')"
  shows "requests ad' = requests ad1 @ [PostRun (endpoint en @ ''/runs'') rc]"
    and "sessionV2 ad' = sessionV2 ad1" and "tenantId ad' = tenantId ad1"
  using assms
  by (auto simp add: persistRunV2_def Let_def split: sum.splits if_splits)

lemma persistRunV2_keeps:
  assumes "persistRunV2 en run ad = (r, ad')"
  shows "keeps ad ad'"
proof -
  obtain r1 ad1 where c: "convertToCreate en run (exampleId ad) ad = (r1, ad1)"
    by (cases "convertToCreate en run (exampleId ad) ad")
  with convert_keeps_aux(1)[of en run "exampleId ad" ad] have k: "keeps ad ad1" by simp
  show ?thesis
  proof (cases r1)
    case (Inl e)
    with assms c k show ?thesis by (simp add: persistRunV2_def)
  next
    case (Inr rc)
    with persistRunV2_posts(2,3)[OF _ assms, of rc ad1] c k
    have "sessionV2 ad' = sessionV2 ad1" "tenantId ad' = tenantId ad1" by simp_all
    moreover from assms c Inr have "exampleId ad' = exampleId ad1"
      by (auto simp add: persistRunV2_def Let_def split: sum.splits if_splits)
    ultimately show ?thesis using k by (simp add: keeps_def)
  qed
qed



lemma store_env_fields:
  "endpoint store_env = ''http://localhost:8000''"
  "fetch_tenants store_env log =
     Inr \<lparr>ok = True, status = 200, statusText = ''OK'', body_text = [],
          json = Some [\<lparr>tenant_ident = ''tenant-1''\<rparr>]\<rparr>"
  "fetch_session store_env log req =
     Inr \<lparr>ok = True, status = 200, statusText = ''OK'', body_text = [],
          json = \<lparr>sess_id = ''session-1'', sess_tenant_id = ''tenant-1'',
                  sess_start_time = 0, sess_name = Some ''default''\<rparr>\<rparr>"
  "fetch_run store_env log req =
     Inr \<lparr>ok = True, status = 200, statusText = ''OK'', body_text = [], json = ()\<rparr>"
  "getRuntimeEnvironment store_env = ''node''"
  by (simp_all add: store_env_def)

lemma empty_store_env_fields:
  "endpoint empty_store_env = ''http://localhost:8000''"
  "fetch_tenants empty_store_env log =
     Inr \<lparr>ok = True, status = 200, statusText = ''OK'', body_text = [], json = Some []\<rparr>"
  by (simp_all add: empty_store_env_def store_env_def)

lemma new_adapter_fields:
  "sessionName new_adapter = ''default''" "sessionExtra new_adapter = None"
  "sessionV2 new_adapter = None" "exampleId new_adapter = Some ''example-1''"
  "tenantId new_adapter = None" "requests new_adapter = []"
  by (simp_all add: new_adapter_def)

lemmas adapter_defs =
  ensureTenantId_def ensureSession_def persistRunV2_def Let_def
  store_env_fields empty_store_env_fields new_adapter_fields leaf_run_def root_run_def

text \<open>
  C6, as stated, fails on a root with one child: the root record carries the
  adapter's example id, the child record carries none.
\<close>

theorem C6_reference_example_id_counterexample:
  "fst (convertToCreate store_env root_run (exampleId new_adapter) new_adapter) =
     Inr (RunCreate ''A'' ''chain'' 0 3 ''chain'' (Some ''example-1'') [(''runtime'', ''node'')] 1
            ''{}'' None ''{}'' ''{}'' ''session-1''
            [RunCreate ''B'' ''llm'' 1 2 ''llm'' None [(''runtime'', ''node'')] 2
               ''{}'' None ''{}'' ''{}'' ''session-1'' []]) \<and>
   reference_example_id
     (RunCreate ''B'' ''llm'' 1 2 ''llm'' None [(''runtime'', ''node'')] 2
        ''{}'' None ''{}'' ''{}'' ''session-1'' []) \<noteq> Some ''example-1''"
  by (simp add: adapter_defs)

text \<open>
  C6 (amended).  The record converted from a run carries the example id passed to
  the conversion, and every recursively converted descendant carries no reference
  example id (\<^verbatim>\<open>undefined\<close>).  For \<^verbatim>\<open>persistRun\<close>: the record posted to the store
  carries the adapter's example id at the root only.
\<close>

theorem C6_reference_example_id:
  "(convertToCreate en run ex ad = (Inr rc, adc) \<longrightarrow>
      reference_example_id rc = ex \<and>
      (\<forall>d\<in>set (descendants rc). reference_example_id d = None)) \<and>
   (convertToCreate en run (exampleId ad) ad = (Inr rc, adc) \<and>
    persistRunV2 en run ad = (r, ad') \<longrightarrow>
      requests ad' = requests adc @ [PostRun (endpoint en @ ''/runs'') rc] \<and>
      reference_example_id rc = exampleId ad \<and>
      (\<forall>d\<in>set (descendants rc). reference_example_id d = None))"
  using convert_example_id_aux(1)[of en run ex ad]
    convert_example_id_aux(1)[of en run "exampleId ad" ad]
    persistRunV2_posts(1)[of en run ad rc adc r ad']
  by blast

text \<open>C6 (amended) on the root with one child.\<close>

theorem C6_reference_example_id_witness:
  "reference_example_id
     (RunCreate ''A'' ''chain'' 0 3 ''chain'' (Some ''example-1'') [(''runtime'', ''node'')] 1
            ''{}'' None ''{}'' ''{}'' ''session-1''
            [RunCreate ''B'' ''llm'' 1 2 ''llm'' None [(''runtime'', ''node'')] 2
               ''{}'' None ''{}'' ''{}'' ''session-1'' []]) = Some ''example-1'' \<and>
   map reference_example_id (descendants
      (RunCreate ''A'' ''chain'' 0 3 ''chain'' (Some ''example-1'') [(''runtime'', ''node'')] 1
            ''{}'' None ''{}'' ''{}'' ''session-1''
            [RunCreate ''B'' ''llm'' 1 2 ''llm'' None [(''runtime'', ''node'')] 2
               ''{}'' None ''{}'' ''{}'' ''session-1'' []])) = [None]"
proof -
  let ?rc = "RunCreate ''A'' ''chain'' 0 3 ''chain'' (Some ''example-1'') [(''runtime'', ''node'')] 1
            ''{}'' None ''{}'' ''{}'' ''session-1''
            [RunCreate ''B'' ''llm'' 1 2 ''llm'' None [(''runtime'', ''node'')] 2
               ''{}'' None ''{}'' ''{}'' ''session-1'' []]"
  let ?ad1 = "snd (convertToCreate store_env root_run (exampleId new_adapter) new_adapter)"
  have "convertToCreate store_env root_run (exampleId new_adapter) new_adapter = (Inr ?rc, ?ad1)"
    by (simp add: adapter_defs)
  with C6_reference_example_id[where en = store_env and run = root_run
      and ex = "exampleId new_adapter" and ad = new_adapter and rc = ?rc and adc = ?ad1
      and r = "fst (persistRunV2 store_env root_run new_adapter)"
      and ad' = "snd (persistRunV2 store_env root_run new_adapter)"]
  show ?thesis by (simp add: new_adapter_fields)
qed

lemma blank_tenant_env_fields:
  "endpoint blank_tenant_env = ''http://localhost:8000''"
  "fetch_tenants blank_tenant_env log =
     Inr \<lparr>ok = True, status = 200, statusText = ''OK'', body_text = [],
          json = Some [\<lparr>tenant_ident = []\<rparr>]\<rparr>"
  "fetch_session blank_tenant_env log req =
     Inr \<lparr>ok = False, status = 500, statusText = ''Internal Server Error'', body_text = [],
          json = \<lparr>sess_id = [], sess_tenant_id = [], sess_start_time = 0, sess_name = None\<rparr>\<rparr>"
  "getRuntimeEnvironment blank_tenant_env = ''node''"
  by (simp_all add: blank_tenant_env_def store_env_def)

text \<open>
  C9, as stated, fails for a tenant whose id is the empty string: the id is resolved
  and stored, but \<^verbatim>\<open>if (this.tenantId)\<close> is false for it, so the next persistence attempt
  queries the tenants again instead of reusing it.  (The store below does not create
  a session, so that a second attempt resolves the tenant again.)
\<close>

theorem C9_tenant_and_session_counterexample:
  "ensureTenantId blank_tenant_env new_adapter =
     (Inr [], new_adapter\<lparr>requests := [Get ''http://localhost:8000/tenants''],
                          tenantId := Some []\<rparr>) \<and>
   fst (persistRunV2 blank_tenant_env root_run new_adapter) =
     Some (FailedToCreateSession 500 ''Internal Server Error'' []) \<and>
   tenantId (snd (persistRunV2 blank_tenant_env root_run new_adapter)) = Some [] \<and>
   requests (snd (persistRunV2 blank_tenant_env root_run new_adapter)) =
     [Get ''http://localhost:8000/tenants'',
      PostSession ''http://localhost:8000/sessions?upsert=true'' ''default'' [] None] \<and>
   requests (snd (persistRunV2 blank_tenant_env root_run
                    (snd (persistRunV2 blank_tenant_env root_run new_adapter)))) =
     [Get ''http://localhost:8000/tenants'',
      PostSession ''http://localhost:8000/sessions?upsert=true'' ''default'' [] None,
      Get ''http://localhost:8000/tenants'',
      PostSession ''http://localhost:8000/sessions?upsert=true'' ''default'' [] None]"
proof -
  let ?ad1 = "new_adapter\<lparr>requests := [Get ''http://localhost:8000/tenants''], tenantId := Some [],
      requests := [Get ''http://localhost:8000/tenants'',
        PostSession ''http://localhost:8000/sessions?upsert=true'' ''default'' [] None]\<rparr>"
  have t: "ensureTenantId blank_tenant_env new_adapter =
     (Inr [], new_adapter\<lparr>requests := [Get ''http://localhost:8000/tenants''],
                          tenantId := Some []\<rparr>)"
    by (simp add: ensureTenantId_def Let_def blank_tenant_env_fields new_adapter_fields)
  have p1: "persistRunV2 blank_tenant_env root_run new_adapter =
     (Some (FailedToCreateSession 500 ''Internal Server Error'' []), ?ad1)"
    by (simp add: persistRunV2_def ensureSession_def t Let_def blank_tenant_env_fields
          new_adapter_fields root_run_def)
  have p2: "requests (snd (persistRunV2 blank_tenant_env root_run ?ad1)) =
     [Get ''http://localhost:8000/tenants'',
      PostSession ''http://localhost:8000/sessions?upsert=true'' ''default'' [] None,
      Get ''http://localhost:8000/tenants'',
      PostSession ''http://localhost:8000/sessions?upsert=true'' ''default'' [] None]"
    by (simp add: persistRunV2_def ensureSession_def ensureTenantId_def Let_def
          blank_tenant_env_fields new_adapter_fields root_run_def)
  from t p1 p2 show ?thesis by (simp add: new_adapter_fields)
qed

text \<open>
  C9 (amended).  When no session and no tenant id are held, and the tenant query is
  answered with an empty or missing list, the persistence attempt raises
  \<open>NoTenantsFound\<close>; the tenant query is the only request issued (so no session-creation
  request), and no session is stored.  A tenant id and a session that have been
  resolved are stored in the adapter; a stored session, and a stored tenant id that is
  a non-empty string (what \<^verbatim>\<open>if (this.tenantId)\<close> accepts), are returned without any
  request and without changing the adapter; no persistence attempt removes or replaces
  them; and with a stored session a persistence attempt issues exactly one request,
  the post of the run.
\<close>

theorem C9_tenant_and_session:
  "(sessionV2 ad = None \<and> \<not> truthy (tenantId ad) \<and>
    fetch_tenants en (requests ad) = Inr response \<and> ok response \<and>
    (json response = None \<or> json response = Some []) \<and>
    persistRunV2 en run ad = (r, ad') \<longrightarrow>
      r = Some (NoTenantsFound (endpoint en @ ''/tenants'')) \<and>
      requests ad' = requests ad @ [Get (endpoint en @ ''/tenants'')] \<and>
      filter is_PostSession (requests ad') = filter is_PostSession (requests ad) \<and>
      sessionV2 ad' = None) \<and>
   (ensureTenantId en ad = (Inr t, adt) \<longrightarrow> tenantId adt = Some t) \<and>
   (ensureSession en ad = (Inr s, ads) \<longrightarrow> sessionV2 ads = Some s) \<and>
   (tenantId ad = Some t \<and> t \<noteq> [] \<longrightarrow> ensureTenantId en ad = (Inr t, ad)) \<and>
   (sessionV2 ad = Some s \<longrightarrow> ensureSession en ad = (Inr s, ad)) \<and>
   (persistRunV2 en run ad = (r, ad') \<longrightarrow>
      (sessionV2 ad = Some s \<longrightarrow> sessionV2 ad' = Some s) \<and>
      (tenantId ad = Some t \<and> t \<noteq> [] \<longrightarrow> tenantId ad' = Some t)) \<and>
   (sessionV2 ad = Some s \<and> persistRunV2 en run ad = (r, ad') \<longrightarrow>
      (\<exists>rc. requests ad' = requests ad @ [PostRun (endpoint en @ ''/runs'') rc]))"
proof (intro conjI impI)
  assume h: "sessionV2 ad = None \<and> \<not> truthy (tenantId ad) \<and>
    fetch_tenants en (requests ad) = Inr response \<and> ok response \<and>
    (json response = None \<or> json response = Some []) \<and>
    persistRunV2 en run ad = (r, ad')"
  then have "ensureSession en ad =
           (Inl (NoTenantsFound (endpoint en @ ''/tenants'')),
            ad\<lparr>requests := requests ad @ [Get (endpoint en @ ''/tenants'')]\<rparr>)"
    using ensureSession_no_tenants[of ad en response] by blast
  from persistRunV2_fails_with_session[OF this, of run] h
  have r: "r = Some (NoTenantsFound (endpoint en @ ''/tenants''))"
    and ad': "ad' = ad\<lparr>requests := requests ad @ [Get (endpoint en @ ''/tenants'')]\<rparr>"
    by simp_all
  show "r = Some (NoTenantsFound (endpoint en @ ''/tenants''))" by (rule r)
  show "requests ad' = requests ad @ [Get (endpoint en @ ''/tenants'')]" using ad' by simp
  show "filter is_PostSession (requests ad') = filter is_PostSession (requests ad)"
    using ad' by simp
  show "sessionV2 ad' = None" using ad' h by simp
next
  assume "ensureTenantId en ad = (Inr t, adt)"
  from ensureTenantId_result(2)[OF this] show "tenantId adt = Some t" by simp
next
  assume "ensureSession en ad = (Inr s, ads)"
  from ensureSession_result(2)[OF this] show "sessionV2 ads = Some s" by simp
next
  assume "tenantId ad = Some t \<and> t \<noteq> []"
  then show "ensureTenantId en ad = (Inr t, ad)" by (simp add: ensureTenantId_cached)
next
  assume "sessionV2 ad = Some s"
  then show "ensureSession en ad = (Inr s, ad)" by (rule ensureSession_cached)
next
  assume p: "persistRunV2 en run ad = (r, ad')" and "sessionV2 ad = Some s"
  with persistRunV2_keeps[OF p] show "sessionV2 ad' = Some s" by (simp add: keeps_def)
next
  assume p: "persistRunV2 en run ad = (r, ad')" and "tenantId ad = Some t \<and> t \<noteq> []"
  with persistRunV2_keeps[OF p] show "tenantId ad' = Some t" by (simp add: keeps_def)
next
  assume h: "sessionV2 ad = Some s \<and> persistRunV2 en run ad = (r, ad')"
  with convert_cached_aux(1)[of ad en run "exampleId ad"] obtain rc where
    "convertToCreate en run (exampleId ad) ad = (Inr rc, ad)" by blast
  from persistRunV2_posts(1)[OF this] h
  show "\<exists>rc. requests ad' = requests ad @ [PostRun (endpoint en @ ''/runs'') rc]" by blast
qed

text \<open>
  C9 on a store without tenants, and on the adapter state reached after a session
  has been resolved against a store with one tenant.
\<close>

theorem C9_tenant_and_session_witness:
  "persistRunV2 empty_store_env root_run new_adapter =
     (Some (NoTenantsFound ''http://localhost:8000/tenants''),
      new_adapter\<lparr>requests := [Get ''http://localhost:8000/tenants'']\<rparr>) \<and>
   sessionV2 (snd (ensureSession store_env new_adapter)) =
     Some \<lparr>sess_id = ''session-1'', sess_tenant_id = ''tenant-1'',
            sess_start_time = 0, sess_name = Some ''default''\<rparr> \<and>
   tenantId (snd (ensureSession store_env new_adapter)) = Some ''tenant-1'' \<and>
   ensureSession empty_store_env (snd (ensureSession store_env new_adapter)) =
     (Inr \<lparr>sess_id = ''session-1'', sess_tenant_id = ''tenant-1'',
            sess_start_time = 0, sess_name = Some ''default''\<rparr>,
      snd (ensureSession store_env new_adapter)) \<and>
   ensureTenantId empty_store_env (snd (ensureSession store_env new_adapter)) =
     (Inr ''tenant-1'', snd (ensureSession store_env new_adapter))"
proof -
  let ?s = "\<lparr>sess_id = ''session-1'', sess_tenant_id = ''tenant-1'',
            sess_start_time = 0, sess_name = Some ''default''\<rparr>"
  let ?resp = "\<lparr>ok = True, status = 200, statusText = ''OK'', body_text = [],
                json = Some ([] :: tenant list)\<rparr>"
  let ?ad1 = "snd (ensureSession store_env new_adapter)"
  have 1: "sessionV2 new_adapter = None" "\<not> truthy (tenantId new_adapter)"
    "fetch_tenants empty_store_env (requests new_adapter) = Inr ?resp" "ok ?resp"
    "json ?resp = Some []" "endpoint empty_store_env = ''http://localhost:8000''"
    "requests new_adapter = []"
    by (simp_all add: adapter_defs)
  note A = C9_tenant_and_session[where ad = new_adapter and en = empty_store_env
      and response = ?resp and run = root_run
      and r = "fst (persistRunV2 empty_store_env root_run new_adapter)"
      and ad' = "snd (persistRunV2 empty_store_env root_run new_adapter)", THEN conjunct1]
  from A 1
  have a: "fst (persistRunV2 empty_store_env root_run new_adapter)
             = Some (NoTenantsFound ''http://localhost:8000/tenants'')"
    and b: "requests (snd (persistRunV2 empty_store_env root_run new_adapter))
             = [Get ''http://localhost:8000/tenants'']"
    by simp_all
  have c: "persistRunV2 empty_store_env root_run new_adapter =
     (Some (NoTenantsFound ''http://localhost:8000/tenants''),
      new_adapter\<lparr>requests := [Get ''http://localhost:8000/tenants'']\<rparr>)"
    by (simp add: adapter_defs)
  have 2: "sessionV2 ?ad1 = Some ?s" "tenantId ?ad1 = Some ''tenant-1''"
    by (simp_all add: adapter_defs)
  note B = C9_tenant_and_session[where ad = ?ad1 and en = empty_store_env and s = ?s
      and t = "''tenant-1''", THEN conjunct2, THEN conjunct2, THEN conjunct2]
  from B[THEN conjunct2, THEN conjunct1] 2
  have d: "ensureSession empty_store_env ?ad1 = (Inr ?s, ?ad1)"
    by simp
  from B[THEN conjunct1] 2
  have e: "ensureTenantId empty_store_env ?ad1 = (Inr ''tenant-1'', ?ad1)"
    by simp
  from a b c 2 d e show ?thesis by simp
qed

section \<open>Execution orders along a sequence of calls\<close>


lemma start_registered:
  assumes c: "start_of c = Some (i, Some p)" and ex: "exec en c st = (None, st')"
    and wf: "wf_tracer st"
  obtains pa where "runMap st p = Some pa" "runMap st' i = Some (next_addr st)"
    "execution_order (heap st' (next_addr st)) = child_execution_order (heap st pa) + 1"
    "child_execution_order (heap st' (next_addr st)) = child_execution_order (heap st pa) + 1"
    "parent_uuid (heap st' (next_addr st)) = Some p"
    "child_execution_order (heap st' pa) = child_execution_order (heap st pa)"
    "i \<noteq> p \<Longrightarrow> runMap st' p = Some pa"
proof -
  obtain r0 st1 where e0: "ensureDefaultSession en st = (r0, st1)"
    by (cases "ensureDefaultSession en st")
  note f0 = ensureDefaultSession_frame[OF e0]
  from c ex show thesis
  proof (cases rule: exec_start_cases)
    case (registered s k)
    from registered(2) obtain pa where pa: "runMap st p = Some pa"
      and k: "k = child_execution_order (heap st pa) + 1"
      by (auto simp add: getExecutionOrder_def lookup_def split: option.splits)
    from registered(3) e0 have tr: "startTrace (new_run en c k s) st1 = Inr st'" by simp
    note t = startTrace_Inr[OF tr]
    note n = new_run_fields[OF c, of en k s]
    from pa wf have "pa < next_addr st" by (simp add: wf_tracer_def)
    then have ne: "pa \<noteq> next_addr st1" using f0 by simp
    have "runMap st' i = Some (next_addr st)" using t(2) n(1) f0 by simp
    moreover have "execution_order (heap st' (next_addr st)) = child_execution_order (heap st pa) + 1"
      using t(3) n(3) k f0 by simp
    moreover have "child_execution_order (heap st' (next_addr st)) = child_execution_order (heap st pa) + 1"
      using t(3) n(4) k f0 by simp
    moreover have "parent_uuid (heap st' (next_addr st)) = Some p"
      using t(3) n(2) f0 by simp
    moreover have "child_execution_order (heap st' pa) = child_execution_order (heap st pa)"
      using t(7)[OF ne] f0 by simp
    moreover have "i \<noteq> p \<Longrightarrow> runMap st' p = Some pa"
      using t(2) n(1) f0 pa by simp
    ultimately show thesis using that pa by blast
  qed simp_all
qed

lemma start_registered_ex:
  assumes c: "start_of c = Some (i, Some p)" and ex: "exec en c st = (None, st')"
    and wf: "wf_tracer st" and ip: "i \<noteq> p"
  shows "\<exists>pa. runMap st p = Some pa \<and> runMap st' i = Some (next_addr st) \<and>
    execution_order (heap st' (next_addr st)) = child_execution_order (heap st pa) + 1 \<and>
    child_execution_order (heap st' (next_addr st)) = child_execution_order (heap st pa) + 1 \<and>
    parent_uuid (heap st' (next_addr st)) = Some p \<and>
    child_execution_order (heap st' pa) = child_execution_order (heap st pa) \<and>
    runMap st' p = Some pa"
  using start_registered[OF c ex wf] ip by metis

lemma start_registered_order:
  assumes c: "start_of c = Some (i, Some p)" and ex: "exec en c st = (None, st')"
    and wf: "wf_tracer st"
  shows "\<exists>pa. runMap st p = Some pa \<and> runMap st' i = Some (next_addr st) \<and>
    execution_order (heap st' (next_addr st)) = child_execution_order (heap st pa) + 1"
  using start_registered[OF c ex wf] by metis

lemma close_updates_parent:
  assumes c: "closes c = Some i" and wf: "wf_tracer st" and a: "runMap st i = Some a"
    and p: "parent_uuid (heap st a) = Some p" "p \<noteq> []"
    and ex: "exec en c st = (None, st')"
  obtains pa where "runMap st p = Some pa"
    "child_execution_order (heap st' pa) =
       max (child_execution_order (heap st pa)) (child_execution_order (heap st a))"
    "p \<noteq> i \<Longrightarrow> runMap st' p = Some pa"
proof -
  let ?st1 = "st\<lparr>heap := (heap st)(a := finalize c (heap st a))\<rparr>"
  from ex a c have k: "run_type (heap st a) = close_kind c"
    and h: "call_hook (end_hook en c) (finalize c (heap st a)) = None"
    by (auto simp add: exec_close split: if_splits option.splits)
  with ex a c have et: "endTrace en a ?st1 = (None, st')"
    by (simp add: exec_close)
  from a wf have u: "uuid (heap st a) = i" by (simp add: wf_tracer_def)
  have p1: "parent_uuid (heap ?st1 a) = Some p" using p by (simp add: finalize_fields)
  show thesis
  proof (cases "runMap st p")
    case None
    then have "runMap ?st1 p = None" by simp
    from endTrace_parent_missing[OF p1 p(2) this, of en] et show thesis by simp
  next
    case (Some pa)
    then have "runMap ?st1 p = Some pa" by simp
    from endTrace_parent[OF p1 p(2) this, of en] et
    have st': "st' = ?st1\<lparr>heap := (heap ?st1)(pa := (heap ?st1 pa)
                  \<lparr>child_execution_order :=
                     max (child_execution_order (heap ?st1 pa)) (child_execution_order (heap ?st1 a))\<rparr>),
               runMap := (runMap ?st1)(uuid (heap ?st1 a) := None)\<rparr>"
      by simp
    have ce: "\<And>b. child_execution_order (heap ?st1 b) = child_execution_order (heap st b)"
      by (simp add: finalize_fields)
    have "child_execution_order (heap st' pa) =
       max (child_execution_order (heap st pa)) (child_execution_order (heap st a))"
      using ce[of pa] ce[of a] by (subst st') simp
    moreover have "p \<noteq> i \<Longrightarrow> runMap st' p = Some pa"
      using Some u by (subst st') (simp add: finalize_fields)
    ultimately show thesis using that Some by blast
  qed
qed


lemma order_of_registered:
  "runMap st i = Some a \<Longrightarrow> order_of st i = Some (execution_order (heap st a))"
  by (simp add: order_of_def lookup_def)

lemma parent_order_kept:
  assumes "wf_tracer st" "runMap st p = Some pa" "\<forall>c\<in>set cs. \<not> touches p c"
  shows "runMap (run_calls en cs st) p = Some pa"
    and "child_execution_order (heap st pa) \<le> child_execution_order (heap (run_calls en cs st) pa)"
proof -
  from assms(1,2) have "pa < next_addr st" by (simp add: wf_tracer_def)
  from run_calls_frame(3)[OF assms(1) this, of en cs]
  show "child_execution_order (heap st pa) \<le> child_execution_order (heap (run_calls en cs st) pa)"
    by (simp add: grows_def)
  from run_calls_frame(4)[OF assms(1,3), of en] assms(2)
  show "runMap (run_calls en cs st) p = Some pa" by simp
qed

text \<open>
  Once a child of \<open>p\<close> has been closed, the child-execution-order of \<open>p\<close> is at least
  the child's.
\<close>

lemma closed_child_raises_parent:
  assumes "wf_tracer st" "runMap st i = Some a" "runMap st p = Some pa"
    "parent_uuid (heap st a) = Some p" "p \<noteq> []" "i \<noteq> p"
    "k \<le> child_execution_order (heap st a)"
    "\<forall>c\<in>set cs. \<not> touches p c" "closed_within en i cs st"
  shows "k \<le> child_execution_order (heap (run_calls en cs st) pa)"
  using assms
proof (induction cs arbitrary: st)
  case Nil
  then show ?case by simp
next
  case (Cons c cs)
  obtain r st1 where ex: "exec en c st = (r, st1)" by (cases "exec en c st")
  note f = exec_frame[OF Cons.prems(1) ex]
  from Cons.prems(8) have np: "\<not> touches p c" and rest: "\<forall>c\<in>set cs. \<not> touches p c" by simp_all
  from f(4)[OF np] Cons.prems(3) have pa1: "runMap st1 p = Some pa" by simp
  show ?case
  proof (cases "touches i c")
    case True
    with Cons.prems(9) ex have cl: "closes c = Some i" and r: "r = None" by simp_all
    from ex r have ex': "exec en c st = (None, st1)" by simp
    obtain pa' where "runMap st p = Some pa'"
      "child_execution_order (heap st1 pa') =
         max (child_execution_order (heap st pa')) (child_execution_order (heap st a))"
      using close_updates_parent[OF cl Cons.prems(1) Cons.prems(2) Cons.prems(4) Cons.prems(5) ex']
      by blast
    with Cons.prems(3) Cons.prems(7) have "k \<le> child_execution_order (heap st1 pa)" by simp
    also from parent_order_kept(2)[OF f(1) pa1 rest, of en]
    have "\<dots> \<le> child_execution_order (heap (run_calls en cs st1) pa)" .
    finally show ?thesis using ex by simp
  next
    case False
    from f(4)[OF False] Cons.prems(2) have a1: "runMap st1 i = Some a" by simp
    from Cons.prems(1,2) have "a < next_addr st" by (simp add: wf_tracer_def)
    from f(3)[OF this] have g: "grows (heap st a) (heap st1 a)" .
    from g Cons.prems(4) have pu: "parent_uuid (heap st1 a) = Some p" by (simp add: grows_def)
    from g Cons.prems(7) have k: "k \<le> child_execution_order (heap st1 a)" by (simp add: grows_def)
    from Cons.prems(9) False ex have cw: "closed_within en i cs st1" by simp
    from Cons.IH[OF f(1) a1 pa1 pu Cons.prems(5) Cons.prems(6) k rest cw] ex
    show ?thesis by simp
  qed
qed

text \<open>
  C3 (amended).  Let a child \<open>i1\<close> be started under \<open>p\<close>, then any calls that neither
  start nor close the id \<open>p\<close> be made, then a child \<open>i2\<close> be started under \<open>p\<close> (both
  starts returning).  The execution order given to \<open>i2\<close> is greater than or equal to
  the one given to \<open>i1\<close>.  It is strictly greater when \<open>i1\<close> has been closed in between
  (its end or error call returned) and \<open>p\<close> is a non-empty id.
\<close>

theorem C3_sibling_order:
  "wf_tracer st \<and> start_of c1 = Some (i1, Some p) \<and> i1 \<noteq> p \<and>
   exec en c1 st = (None, st1) \<and>
   (\<forall>c\<in>set between. \<not> touches p c) \<and>
   start_of c2 = Some (i2, Some p) \<and>
   exec en c2 (run_calls en between st1) = (None, st3) \<longrightarrow>
     (\<exists>k1 k2. order_of st1 i1 = Some k1 \<and> order_of st3 i2 = Some k2 \<and> k1 \<le> k2 \<and>
        (p \<noteq> [] \<and> closed_within en i1 between st1 \<longrightarrow> k1 < k2))"
proof (intro impI)
  assume h: "wf_tracer st \<and> start_of c1 = Some (i1, Some p) \<and> i1 \<noteq> p \<and>
   exec en c1 st = (None, st1) \<and>
   (\<forall>c\<in>set between. \<not> touches p c) \<and>
   start_of c2 = Some (i2, Some p) \<and>
   exec en c2 (run_calls en between st1) = (None, st3)"
  then have wf: "wf_tracer st" and c1: "start_of c1 = Some (i1, Some p)" and ne: "i1 \<noteq> p"
    and ex1: "exec en c1 st = (None, st1)" and bt: "\<forall>c\<in>set between. \<not> touches p c"
    and c2: "start_of c2 = Some (i2, Some p)"
    and ex2: "exec en c2 (run_calls en between st1) = (None, st3)"
    by blast+
  let ?st2 = "run_calls en between st1"
  let ?a1 = "next_addr st"
  obtain pa where pa: "runMap st p = Some pa" and a1: "runMap st1 i1 = Some ?a1"
    and o1: "execution_order (heap st1 ?a1) = child_execution_order (heap st pa) + 1"
    and co1: "child_execution_order (heap st1 ?a1) = child_execution_order (heap st pa) + 1"
    and pu1: "parent_uuid (heap st1 ?a1) = Some p"
    and cp1: "child_execution_order (heap st1 pa) = child_execution_order (heap st pa)"
    and pa1: "runMap st1 p = Some pa"
    using start_registered_ex[OF c1 ex1 wf ne] by blast
  have wf1: "wf_tracer st1" using exec_frame(1)[OF wf ex1] .
  have wf2: "wf_tracer ?st2" using run_calls_frame(1)[OF wf1] .
  note pk = parent_order_kept[OF wf1 pa1 bt, of en]
  obtain pa' where pa': "runMap ?st2 p = Some pa'" and a2: "runMap st3 i2 = Some (next_addr ?st2)"
    and o2: "execution_order (heap st3 (next_addr ?st2)) = child_execution_order (heap ?st2 pa') + 1"
    using start_registered_order[OF c2 ex2 wf2] by blast
  from pa' pk(1) have eq: "pa' = pa" by simp
  let ?k1 = "child_execution_order (heap st pa) + 1"
  let ?k2 = "child_execution_order (heap ?st2 pa) + 1"
  have k1: "order_of st1 i1 = Some ?k1" using order_of_registered[OF a1] o1 by simp
  have k2: "order_of st3 i2 = Some ?k2" using order_of_registered[OF a2] o2 eq by simp
  have le: "?k1 \<le> ?k2" using pk(2) cp1 by simp
  have lt: "?k1 < ?k2" if "p \<noteq> [] \<and> closed_within en i1 between st1"
  proof -
    from that have "p \<noteq> []" and cw: "closed_within en i1 between st1" by simp_all
    from closed_child_raises_parent[OF wf1 a1 pa1 pu1 \<open>p \<noteq> []\<close> ne _ bt cw, of ?k1] co1
    have "?k1 \<le> child_execution_order (heap ?st2 pa)" by simp
    then show ?thesis by simp
  qed
  from k1 k2 le lt
  show "\<exists>k1 k2. order_of st1 i1 = Some k1 \<and> order_of st3 i2 = Some k2 \<and> k1 \<le> k2 \<and>
        (p \<noteq> [] \<and> closed_within en i1 between st1 \<longrightarrow> k1 < k2)"
    by blast
qed

text \<open>
  C3, as stated, fails for siblings that are open at the same time: \<open>B\<close> is started
  under \<open>A\<close> and gets order 2; \<open>C\<close> is started under \<open>A\<close> before \<open>B\<close> ends and gets order 2
  as well, since the child-execution-order of \<open>A\<close> is raised only when a child is
  closed.
\<close>

theorem C3_sibling_order_counterexample:
  "order_of chain_with_llm ''B'' = Some 2 \<and>
   fst (exec quiet_env (LLMStart ''llm'' [''hi''] ''C'' (Some ''A'') 2) chain_with_llm) = None \<and>
   order_of (snd (exec quiet_env (LLMStart ''llm'' [''hi''] ''C'' (Some ''A'') 2) chain_with_llm)) ''C''
     = Some 2"
  by (simp add: order_of_def chain_with_llm_def model_defs)

text \<open>C3 (amended) on \<open>B\<close> started, \<open>B\<close> ended, \<open>C\<close> started, all under \<open>A\<close>.\<close>

theorem C3_sibling_order_witness:
  "order_of (snd (exec quiet_env (LLMStart ''llm'' [''hi''] ''B'' (Some ''A'') 1) one_chain)) ''B''
     = Some 2 \<and>
   order_of (snd (exec quiet_env (LLMStart ''llm'' [''hi''] ''C'' (Some ''A'') 3)
     (run_calls quiet_env [LLMEnd ''result'' ''B'' 2]
        (snd (exec quiet_env (LLMStart ''llm'' [''hi''] ''B'' (Some ''A'') 1) one_chain))))) ''C''
     = Some 3"
proof -
  let ?c1 = "LLMStart ''llm'' [''hi''] ''B'' (Some ''A'') 1"
  let ?c2 = "LLMStart ''llm'' [''hi''] ''C'' (Some ''A'') 3"
  let ?between = "[LLMEnd ''result'' ''B'' 2]"
  let ?st1 = "snd (exec quiet_env ?c1 one_chain)"
  let ?st3 = "snd (exec quiet_env ?c2 (run_calls quiet_env ?between ?st1))"
  have e1: "exec quiet_env ?c1 one_chain = (None, ?st1)"
    by (simp add: one_chain_def model_defs)
  have e2: "exec quiet_env ?c2 (run_calls quiet_env ?between ?st1) = (None, ?st3)"
    by (simp add: one_chain_def model_defs)
  have bt: "\<forall>c\<in>set ?between. \<not> touches ''A'' c" by (simp add: touches_def)
  have cw: "closed_within quiet_env ''B'' ?between ?st1"
    by (simp add: touches_def one_chain_def model_defs)
  have k1: "order_of ?st1 ''B'' = Some 2" and k2: "order_of ?st3 ''C'' = Some 3"
    by (simp_all add: order_of_def one_chain_def model_defs)
  from C3_sibling_order[where st = one_chain and ?c1.0 = ?c1 and ?i1.0 = "''B''" and p = "''A''"
      and en = quiet_env and ?st1.0 = ?st1 and between = ?between and ?c2.0 = ?c2
      and ?i2.0 = "''C''" and ?st3.0 = ?st3]
    wf_one_chain e1 e2 bt cw
  have "\<exists>k1 k2. order_of ?st1 ''B'' = Some k1 \<and> order_of ?st3 ''C'' = Some k2 \<and> k1 < k2"
    by auto
  with k1 k2 show ?thesis by simp
qed

section \<open>Children started and closed one after another\<close>






end
